theory Spec2Isabelle
  imports Main "HOL-Library.Char_ord" "HOL-Library.List_Lexorder" "HOL-Library.Sublist"
    "HOL-Library.Multiset"
begin

section \<open>Go standard library: path and strings\<close>

text \<open>
  The repository calls \<^verbatim>\<open>path.Clean\<close>, \<^verbatim>\<open>path.Base\<close>, \<^verbatim>\<open>path.Dir\<close>,
  \<^verbatim>\<open>filepath.Join\<close> and a few functions of \<^verbatim>\<open>strings\<close>. They belong to the Go
  standard library; the definitions below follow the documented algorithms of Go's
  \<^verbatim>\<open>path\<close> package on slash-separated paths (on a POSIX system \<^verbatim>\<open>path/filepath\<close>
  behaves the same). A Go string is a byte sequence: \<^typ>\<open>string\<close>, compared bytewise.
\<close>

text \<open>\<^verbatim>\<open>strings.Split(s, "/")\<close>: the pieces between slashes; never the empty list.\<close>

fun Split :: "string \<Rightarrow> string list" where
  "Split [] = [[]]"
| "Split (c # cs) =
     (if c = CHR ''/'' then [] # Split cs
      else (case Split cs of [] \<Rightarrow> [[c]] | x # xs \<Rightarrow> (c # x) # xs))"

text \<open>\<^verbatim>\<open>strings.Join(elems, "/")\<close>.\<close>

fun JoinSlash :: "string list \<Rightarrow> string" where
  "JoinSlash [] = []"
| "JoinSlash [x] = x"
| "JoinSlash (x # y # ys) = x @ CHR ''/'' # JoinSlash (y # ys)"

text \<open>
  One round of the loop of \<^verbatim>\<open>path.Clean\<close>, on the path element \<open>e\<close>. The output buffer
  is kept as the stack \<open>out\<close> of the elements written so far, last one first. An empty
  element and \<^verbatim>\<open>.\<close> are skipped; \<^verbatim>\<open>..\<close> drops the last real element when there is one
  (``can backtrack''), is appended when the path is not rooted, and is dropped at the root;
  any other element is appended.
\<close>

definition cleanStep :: "bool \<Rightarrow> string list \<Rightarrow> string \<Rightarrow> string list" where
  "cleanStep rooted out e =
     (if e = [] \<or> e = ''.'' then out
      else if e = ''..'' then
        (case out of
           [] \<Rightarrow> (if rooted then [] else [e])
         | t # rest \<Rightarrow> (if t \<noteq> ''..'' then rest else if rooted then out else e # out))
      else e # out)"

definition Clean :: "string \<Rightarrow> string" where
  "Clean path =
     (if path = [] then ''.''
      else
        let rooted = (hd path = CHR ''/'');
            out = foldl (cleanStep rooted) [] (Split path)
        in if rooted then CHR ''/'' # JoinSlash (rev out)
           else if out = [] then ''.'' else JoinSlash (rev out))"

text \<open>\<^verbatim>\<open>path.Base\<close>: strip trailing slashes, keep what follows the last slash.\<close>

fun stripSlashes :: "string \<Rightarrow> string" where
  "stripSlashes [] = []"
| "stripSlashes (c # cs) = (if c = CHR ''/'' then stripSlashes cs else c # cs)"

definition Base :: "string \<Rightarrow> string" where
  "Base path =
     (if path = [] then ''.''
      else
        let p = rev (stripSlashes (rev path));
            q = rev (takeWhile (\<lambda>c. c \<noteq> CHR ''/'') (rev p))
        in if q = [] then ''/'' else q)"

text \<open>\<^verbatim>\<open>path.Dir\<close>: \<^verbatim>\<open>Clean\<close> of everything up to and including the last slash.\<close>

definition Dir :: "string \<Rightarrow> string" where
  "Dir path = Clean (rev (dropWhile (\<lambda>c. c \<noteq> CHR ''/'') (rev path)))"

text \<open>\<^verbatim>\<open>filepath.Join\<close> of two elements: from the first non-empty element on, the
  elements are joined with slashes and cleaned; no non-empty element gives the empty
  string.\<close>

definition Join :: "string \<Rightarrow> string \<Rightarrow> string" where
  "Join a b =
     (if a \<noteq> [] then Clean (a @ CHR ''/'' # b)
      else if b \<noteq> [] then Clean b
      else [])"

definition TrimPrefix :: "string \<Rightarrow> string \<Rightarrow> string" where
  "TrimPrefix s pre = (if prefix pre s then drop (length pre) s else s)"

definition HasSuffix :: "string \<Rightarrow> string \<Rightarrow> bool" where
  "HasSuffix s suf = suffix suf s"

definition TrimSuffix :: "string \<Rightarrow> string \<Rightarrow> string" where
  "TrimSuffix s suf = (if suffix suf s then take (length s - length suf) s else s)"

text \<open>\<^verbatim>\<open>strings.Replace(s, old, "", 1)\<close>: the first occurrence of \<open>old\<close> is cut out of
  \<open>s\<close>; an empty \<open>old\<close> is replaced by the empty string at the front, which changes
  nothing.\<close>

fun ReplaceFirst :: "string \<Rightarrow> string \<Rightarrow> string" where
  "ReplaceFirst [] old = []"
| "ReplaceFirst (c # cs) old =
     (if old = [] then c # cs
      else if prefix old (c # cs) then drop (length old) (c # cs)
      else c # ReplaceFirst cs old)"


section \<open>Errors\<close>

text \<open>
  A Go \<^verbatim>\<open>error\<close> value. \<open>ErrNoFile\<close> is the sentinel \<^verbatim>\<open>vfs.ErrNoFile\<close> and
  \<open>ErrClosed\<close> is \<^verbatim>\<open>os.ErrClosed\<close>; both are compared by identity in Go, so a
  \<^verbatim>\<open>fmt.Errorf\<close> value (\<open>Errorf\<close>, with its message) never equals them.
  \<open>PathError\<close> is \<^verbatim>\<open>*os.PathError\<close> with its fields \<^verbatim>\<open>Op\<close>, \<^verbatim>\<open>Path\<close>, \<^verbatim>\<open>Err\<close>.
  The result of a call that can fail is \<open>error + 'a\<close>, and \<open>error option\<close> where Go
  returns only an \<^verbatim>\<open>error\<close> (\<open>None\<close> is \<^verbatim>\<open>nil\<close>). A call that can hit a nil
  pointer has the result type \<open>'a exec\<close>: \<open>Panic\<close> is the runtime panic.
\<close>

datatype error =
    ErrNoFile
  | ErrClosed
  | Errorf string
  | PathError (Op: string) (Path: string) (Err: error)

datatype 'a exec = Return 'a | Panic

section \<open>The in-memory backend\<close>

text \<open>
  Nodes are heap objects reached through pointers (\<^verbatim>\<open>*MemNode\<close>), and the byte slices
  holding file content are shared, not copied. The heap is explicit: \<open>nodes\<close> maps a
  node address to the node stored there and \<open>arrays\<close> maps an array address to the
  bytes of a backing array; \<open>nextNode\<close> and \<open>nextArray\<close> are the first addresses not
  yet allocated. A \<^verbatim>\<open>[]byte\<close> value is the address of its backing array, \<open>None\<close> for
  the nil slice. The field \<^verbatim>\<open>modTime\<close> (wall-clock time) is left out.
\<close>

type_synonym addr = nat
type_synonym slice = "nat option"

record MemNode =
  name :: string
  isDir :: bool
  content :: slice
  children :: "addr list"

record heap =
  nodes :: "addr \<Rightarrow> MemNode"
  nextNode :: addr
  arrays :: "nat \<Rightarrow> char list"
  nextArray :: nat

definition newNode :: "MemNode \<Rightarrow> heap \<Rightarrow> addr \<times> heap" where
  "newNode n h = (nextNode h, h\<lparr>nodes := (nodes h)(nextNode h := n), nextNode := Suc (nextNode h)\<rparr>)"

definition newArray :: "char list \<Rightarrow> heap \<Rightarrow> nat \<times> heap" where
  "newArray bs h = (nextArray h, h\<lparr>arrays := (arrays h)(nextArray h := bs), nextArray := Suc (nextArray h)\<rparr>)"

definition emptyHeap :: heap where
  "emptyHeap = \<lparr>nodes = (\<lambda>_. \<lparr>name = [], isDir = False, content = None, children = []\<rparr>),
     nextNode = 0, arrays = (\<lambda>_. []), nextArray = 0\<rparr>"

definition bytesOf :: "heap \<Rightarrow> slice \<Rightarrow> char list" where
  "bytesOf h s = (case s of None \<Rightarrow> [] | Some a \<Rightarrow> arrays h a)"

text \<open>The constructors \<^verbatim>\<open>Dir\<close>, \<^verbatim>\<open>File\<close> and \<^verbatim>\<open>Mem\<close> (\<open>DirNode\<close> is \<^verbatim>\<open>Dir\<close>, a name
  taken by \<^verbatim>\<open>path.Dir\<close> above). \<^verbatim>\<open>File\<close> keeps the caller's slice.\<close>

definition DirNode :: "string \<Rightarrow> addr list \<Rightarrow> heap \<Rightarrow> addr \<times> heap" where
  "DirNode nm cs h = newNode \<lparr>name = nm, isDir = True, content = None, children = cs\<rparr> h"

definition File :: "string \<Rightarrow> slice \<Rightarrow> heap \<Rightarrow> addr \<times> heap" where
  "File nm c h = newNode \<lparr>name = nm, isDir = False, content = c, children = []\<rparr> h"

definition Mem :: "addr list \<Rightarrow> heap \<Rightarrow> addr \<times> heap" where
  "Mem cs h = DirNode [] cs h"

definition Size :: "heap \<Rightarrow> addr \<Rightarrow> int" where
  "Size h mn = int (length (bytesOf h (content (nodes h mn))))"

subsection \<open>Path resolution\<close>

definition childByName :: "heap \<Rightarrow> addr \<Rightarrow> string \<Rightarrow> addr option" where
  "childByName h mn nm = find (\<lambda>c. name (nodes h c) = nm) (children (nodes h mn))"

fun child :: "heap \<Rightarrow> addr \<Rightarrow> string list \<Rightarrow> addr option" where
  "child h mn [] = Some mn"
| "child h mn (p # ps) =
     (if ps = [] \<and> p = [] then Some mn
      else (case childByName h mn p of
              None \<Rightarrow> None
            | Some c \<Rightarrow> child h c ps))"

definition childByPath :: "heap \<Rightarrow> addr \<Rightarrow> string \<Rightarrow> addr option" where
  "childByPath h mn path = child h mn (Split (drop 1 (Clean (CHR ''/'' # path))))"

definition parentNode :: "heap \<Rightarrow> addr \<Rightarrow> string \<Rightarrow> addr option" where
  "parentNode h mn path = childByPath h mn (Dir (Clean (CHR ''/'' # path)))"

subsection \<open>Readers and write handles\<close>

text \<open>
  \<^verbatim>\<open>Content\<close> wraps \<^verbatim>\<open>bytes.NewReader(mn.content)\<close>: the reader holds the node's slice
  itself and a read position. \<open>ReadAll\<close> is what \<^verbatim>\<open>ioutil.ReadAll\<close> returns for such a
  reader: the bytes the backing array holds at the time of the read, from the position on.
\<close>

record ByteReaderCloser =
  rd_s :: slice
  rd_i :: nat

definition Content :: "heap \<Rightarrow> addr \<Rightarrow> ByteReaderCloser" where
  "Content h mn = \<lparr>rd_s = content (nodes h mn), rd_i = 0\<rparr>"

definition ReadAll :: "heap \<Rightarrow> ByteReaderCloser \<Rightarrow> char list" where
  "ReadAll h r = drop (rd_i r) (bytesOf h (rd_s r))"

text \<open>The handle \<^verbatim>\<open>memFile\<close>: \<open>mf_content\<close> is the \<^verbatim>\<open>bytes.Buffer\<close> written so far,
  \<open>mf_dir\<close> the pointer to the parent directory node.\<close>

record memFile =
  mf_closed :: bool
  mf_content :: "char list"
  mf_dir :: addr
  mf_path :: string

definition memFile_Write :: "memFile \<Rightarrow> char list \<Rightarrow> (nat \<times> error option) \<times> memFile" where
  "memFile_Write mf p =
     (if mf_closed mf then ((0, Some ErrClosed), mf)
      else ((length p, None), mf\<lparr>mf_content := mf_content mf @ p\<rparr>))"

definition appendChild :: "addr \<Rightarrow> addr \<Rightarrow> heap \<Rightarrow> heap" where
  "appendChild dir c h =
     h\<lparr>nodes := (nodes h)(dir := (nodes h dir)\<lparr>children := children (nodes h dir) @ [c]\<rparr>)\<rparr>"

definition memFile_Close :: "heap \<Rightarrow> memFile \<Rightarrow> error option \<times> memFile \<times> heap" where
  "memFile_Close h mf =
     (if mf_closed mf then (Some ErrClosed, mf, h)
      else
        let (a, h1) = newArray (mf_content mf) h;
            (n, h2) = newNode \<lparr>name = Base (mf_path mf), isDir = False,
                               content = Some a, children = []\<rparr> h1
        in (None, mf\<lparr>mf_closed := True\<rparr>, appendChild (mf_dir mf) n h2))"

subsection \<open>Operations\<close>

definition MemNode_Open :: "heap \<Rightarrow> addr \<Rightarrow> string \<Rightarrow> error + ByteReaderCloser" where
  "MemNode_Open h mn path0 =
     (let path = Clean (CHR ''/'' # path0)
      in case childByPath h mn path of
           None \<Rightarrow> Inl (PathError ''open'' path ErrNoFile)
         | Some c \<Rightarrow> Inr (Content h c))"

definition MemNode_Remove :: "heap \<Rightarrow> addr \<Rightarrow> string \<Rightarrow> error option \<times> heap" where
  "MemNode_Remove h mn path0 =
     (let path = Clean (CHR ''/'' # path0);
          base = Base path;
          noParent = PathError ''remove'' path (Errorf (''No parent directory '' @ path))
      in case parentNode h mn path of
           None \<Rightarrow> (Some noParent, h)
         | Some dir \<Rightarrow>
             if \<not> isDir (nodes h dir) then (Some noParent, h)
             else
               let cs = filter (\<lambda>c. name (nodes h c) \<noteq> base) (children (nodes h dir))
               in if length cs = length (children (nodes h dir))
                  then (Some (PathError ''remove'' path ErrNoFile), h)
                  else (None, h\<lparr>nodes := (nodes h)(dir := (nodes h dir)\<lparr>children := cs\<rparr>)\<rparr>))"

definition MemNode_Create :: "heap \<Rightarrow> addr \<Rightarrow> string \<Rightarrow> (error + memFile) \<times> heap" where
  "MemNode_Create h mn path0 =
     (let path = Clean (CHR ''/'' # path0);
          parent = Dir path;
          noParent = PathError ''create'' path (Errorf (''No parent directory '' @ parent))
      in case childByPath h mn parent of
           None \<Rightarrow> (Inl noParent, h)
         | Some dir \<Rightarrow>
             if \<not> isDir (nodes h dir) then (Inl noParent, h)
             else
               let mf = \<lparr>mf_closed = False, mf_content = [], mf_dir = dir, mf_path = Base path\<rparr>
               in (case MemNode_Remove h mn path of
                     (None, h') \<Rightarrow> (Inr mf, h')
                   | (Some (PathError op p e), h') \<Rightarrow>
                       if e \<noteq> ErrNoFile then (Inl (PathError op p e), h') else (Inr mf, h')
                   | (Some err, h') \<Rightarrow> (Inl err, h')))"

text \<open>\<^verbatim>\<open>Copy\<close>: the source reader either fails (\<open>Inl\<close>) or delivers its bytes, which
  \<^verbatim>\<open>io.Copy\<close> writes to the handle.\<close>

definition MemNode_Copy :: "heap \<Rightarrow> addr \<Rightarrow> string \<Rightarrow> error + char list \<Rightarrow> error option \<times> heap" where
  "MemNode_Copy h mn destPath source =
     (case MemNode_Create h mn destPath of
        (Inl err, h') \<Rightarrow> (Some err, h')
      | (Inr dest, h') \<Rightarrow>
          (case source of
             Inl err \<Rightarrow> (Some err, h')
           | Inr bs \<Rightarrow>
               (case memFile_Write dest bs of
                  ((_, Some err), _) \<Rightarrow> (Some err, h')
                | ((_, None), dest') \<Rightarrow>
                    (case memFile_Close h' dest' of (e, _, h'') \<Rightarrow> (e, h'')))))"

text \<open>\<^verbatim>\<open>Move\<close> dereferences \<^verbatim>\<open>src\<close> and \<^verbatim>\<open>dest\<close> without a nil check; the heap at a
  panic is the heap as mutated so far.\<close>

definition MemNode_Move :: "heap \<Rightarrow> addr \<Rightarrow> string \<Rightarrow> string \<Rightarrow> error option exec \<times> heap" where
  "MemNode_Move h mn srcPath destPath =
     (let src = parentNode h mn srcPath;
          dest = parentNode h mn destPath
      in case src of
           None \<Rightarrow> (Panic, h)
         | Some s \<Rightarrow>
             let cs = children (nodes h s);
                 isFile = (\<lambda>c. name (nodes h c) = Base srcPath);
                 fileIndex = length (takeWhile (\<lambda>c. \<not> isFile c) cs)
             in (case find isFile cs of
                   None \<Rightarrow> (Return (Some (PathError ''move'' srcPath ErrNoFile)), h)
                 | Some file \<Rightarrow>
                     let h1 = h\<lparr>nodes := (nodes h)(s := (nodes h s)
                                 \<lparr>children := take fileIndex cs @ drop (Suc fileIndex) cs\<rparr>)\<rparr>
                     in (case dest of
                           None \<Rightarrow> (Panic, h1)
                         | Some d \<Rightarrow> (Return None, appendChild d file h1))))"

definition MemNode_Stat :: "heap \<Rightarrow> addr \<Rightarrow> string \<Rightarrow> error + addr" where
  "MemNode_Stat h mn path0 =
     (let path = Clean (CHR ''/'' # path0)
      in case childByPath h mn path of
           None \<Rightarrow> Inl (PathError ''stat'' path ErrNoFile)
         | Some c \<Rightarrow> Inr c)"

text \<open>\<^verbatim>\<open>sortFileInfos\<close> is \<^verbatim>\<open>sort.Sort\<close> with \<^verbatim>\<open>Less\<close> comparing names: the entries
  rearranged into ascending order of name. (\<^verbatim>\<open>sort.Sort\<close> is not stable; nothing below
  depends on the order among entries of equal name.)\<close>

definition sortFileInfos :: "heap \<Rightarrow> addr list \<Rightarrow> addr list" where
  "sortFileInfos h fis = sort_key (\<lambda>c. name (nodes h c)) fis"

definition MemNode_Readdir :: "heap \<Rightarrow> addr \<Rightarrow> string \<Rightarrow> error + addr list" where
  "MemNode_Readdir h mn path =
     (case childByPath h mn path of
        None \<Rightarrow> Inl (PathError ''open'' path ErrNoFile)
      | Some node \<Rightarrow> Inr (sortFileInfos h (children (nodes h node))))"

definition MemNode_Mkdir :: "heap \<Rightarrow> addr \<Rightarrow> string \<Rightarrow> error option \<times> heap" where
  "MemNode_Mkdir h mn path =
     (let nm = Base path;
          noParent = PathError ''mkdir'' path (Errorf (''No parent directory for '' @ path))
      in case parentNode h mn path of
           None \<Rightarrow> (Some noParent, h)
         | Some dir \<Rightarrow>
             if \<not> isDir (nodes h dir) then (Some noParent, h)
             else (case DirNode nm [] h of (n, h1) \<Rightarrow> (None, appendChild dir n h1)))"


section \<open>The FileSystem interface and the Subtree wrapper\<close>

text \<open>
  The interface \<^verbatim>\<open>FileSystem\<close> as a record of operations over the backend's state
  \<open>'h\<close>; \<open>'r\<close>, \<open>'w\<close> and \<open>'i\<close> are the backend's readers, write handles and
  \<^verbatim>\<open>os.FileInfo\<close> values. (\<^verbatim>\<open>URL\<close> is left out.)
\<close>

record ('h, 'r, 'w, 'i) FileSystem =
  Open :: "string \<Rightarrow> 'h \<Rightarrow> (error + 'r) \<times> 'h"
  Create :: "string \<Rightarrow> 'h \<Rightarrow> (error + 'w) \<times> 'h"
  Copy :: "string \<Rightarrow> error + char list \<Rightarrow> 'h \<Rightarrow> error option \<times> 'h"
  Move :: "string \<Rightarrow> string \<Rightarrow> 'h \<Rightarrow> error option exec \<times> 'h"
  Remove :: "string \<Rightarrow> 'h \<Rightarrow> error option \<times> 'h"
  Stat :: "string \<Rightarrow> 'h \<Rightarrow> (error + 'i) \<times> 'h"
  Readdir :: "string \<Rightarrow> 'h \<Rightarrow> (error + 'i list) \<times> 'h"
  Mkdir :: "string \<Rightarrow> 'h \<Rightarrow> error option \<times> 'h"

text \<open>A \<^verbatim>\<open>*MemNode\<close> as a \<^verbatim>\<open>FileSystem\<close>; its \<^verbatim>\<open>os.FileInfo\<close> values are node
  pointers.\<close>

definition MemFS :: "addr \<Rightarrow> (heap, ByteReaderCloser, memFile, addr) FileSystem" where
  "MemFS mn =
     \<lparr>Open = (\<lambda>p h. (MemNode_Open h mn p, h)),
      Create = (\<lambda>p h. MemNode_Create h mn p),
      Copy = (\<lambda>p src h. MemNode_Copy h mn p src),
      Move = (\<lambda>p q h. MemNode_Move h mn p q),
      Remove = (\<lambda>p h. MemNode_Remove h mn p),
      Stat = (\<lambda>p h. (MemNode_Stat h mn p, h)),
      Readdir = (\<lambda>p h. (MemNode_Readdir h mn p, h)),
      Mkdir = (\<lambda>p h. MemNode_Mkdir h mn p)\<rparr>"

definition mapPath :: "string \<Rightarrow> string \<Rightarrow> string" where
  "mapPath root path = Join root (Clean path)"

definition unmapPath :: "string \<Rightarrow> string \<Rightarrow> string" where
  "unmapPath root path = TrimPrefix path root"

text \<open>\<^verbatim>\<open>unmapError\<close> on a non-nil error; a nil error stays nil, which the callers below
  express with \<open>map_option\<close> and \<open>map_sum\<close>.\<close>

definition unmapError :: "string \<Rightarrow> error \<Rightarrow> error" where
  "unmapError root err =
     (case err of
        PathError op p e \<Rightarrow> PathError op (unmapPath root p) e
      | _ \<Rightarrow> err)"

definition subtree_Open ::
  "('h, 'r, 'w, 'i) FileSystem \<Rightarrow> string \<Rightarrow> string \<Rightarrow> 'h \<Rightarrow> (error + 'r) \<times> 'h" where
  "subtree_Open fs root nm h =
     (case Open fs (mapPath root nm) h of (r, h') \<Rightarrow> (map_sum (unmapError root) id r, h'))"

definition subtree_Create ::
  "('h, 'r, 'w, 'i) FileSystem \<Rightarrow> string \<Rightarrow> string \<Rightarrow> 'h \<Rightarrow> (error + 'w) \<times> 'h" where
  "subtree_Create fs root nm h =
     (case Create fs (mapPath root nm) h of (w, h') \<Rightarrow> (map_sum (unmapError root) id w, h'))"

definition subtree_Copy ::
  "('h, 'r, 'w, 'i) FileSystem \<Rightarrow> string \<Rightarrow> string \<Rightarrow> error + char list \<Rightarrow> 'h
     \<Rightarrow> error option \<times> 'h" where
  "subtree_Copy fs root destPath source h = Copy fs (mapPath root destPath) source h"

definition subtree_Move ::
  "('h, 'r, 'w, 'i) FileSystem \<Rightarrow> string \<Rightarrow> string \<Rightarrow> string \<Rightarrow> 'h
     \<Rightarrow> error option exec \<times> 'h" where
  "subtree_Move fs root srcPath destPath h =
     Move fs (mapPath root srcPath) (mapPath root destPath) h"

definition subtree_Remove ::
  "('h, 'r, 'w, 'i) FileSystem \<Rightarrow> string \<Rightarrow> string \<Rightarrow> 'h \<Rightarrow> error option \<times> 'h" where
  "subtree_Remove fs root path h =
     (case Remove fs (mapPath root path) h of (e, h') \<Rightarrow> (map_option (unmapError root) e, h'))"

definition subtree_Stat ::
  "('h, 'r, 'w, 'i) FileSystem \<Rightarrow> string \<Rightarrow> string \<Rightarrow> 'h \<Rightarrow> (error + 'i) \<times> 'h" where
  "subtree_Stat fs root path h =
     (case Stat fs (mapPath root path) h of (i, h') \<Rightarrow> (map_sum (unmapError root) id i, h'))"

definition subtree_Readdir ::
  "('h, 'r, 'w, 'i) FileSystem \<Rightarrow> string \<Rightarrow> string \<Rightarrow> 'h \<Rightarrow> (error + 'i list) \<times> 'h" where
  "subtree_Readdir fs root path h =
     (case Readdir fs (mapPath root path) h of (is, h') \<Rightarrow> (map_sum (unmapError root) id is, h'))"

definition subtree_Mkdir ::
  "('h, 'r, 'w, 'i) FileSystem \<Rightarrow> string \<Rightarrow> string \<Rightarrow> 'h \<Rightarrow> error option \<times> 'h" where
  "subtree_Mkdir fs root path h =
     (case Mkdir fs (mapPath root path) h of (e, h') \<Rightarrow> (map_option (unmapError root) e, h'))"

definition subtree :: "('h, 'r, 'w, 'i) FileSystem \<Rightarrow> string \<Rightarrow> ('h, 'r, 'w, 'i) FileSystem" where
  "subtree fs root =
     \<lparr>Open = subtree_Open fs root, Create = subtree_Create fs root,
      Copy = subtree_Copy fs root, Move = subtree_Move fs root,
      Remove = subtree_Remove fs root, Stat = subtree_Stat fs root,
      Readdir = subtree_Readdir fs root, Mkdir = subtree_Mkdir fs root\<rparr>"

text \<open>The constructor \<^verbatim>\<open>Subtree\<close>; \<open>isdir\<close> is the method \<^verbatim>\<open>IsDir\<close> of the backend's
  \<^verbatim>\<open>os.FileInfo\<close>.\<close>

definition Subtree ::
  "('h \<Rightarrow> 'i \<Rightarrow> bool) \<Rightarrow> ('h, 'r, 'w, 'i) FileSystem \<Rightarrow> string \<Rightarrow> 'h
     \<Rightarrow> (error + ('h, 'r, 'w, 'i) FileSystem) \<times> 'h" where
  "Subtree isdir fs root h =
     (if root = [] then (Inr fs, h)
      else (case Stat fs root h of
              (Inl err, h') \<Rightarrow> (Inl err, h')
            | (Inr mount, h') \<Rightarrow>
                if \<not> isdir h' mount
                then (Inl (PathError ''stat'' root
                        (Errorf (''Path '' @ [CHR 0x27] @ root @ [CHR 0x27] @ '' is not a directory''))), h')
                else (Inr (subtree fs root), h')))"

section \<open>The object-store backend\<close>

text \<open>
  The S3 client is outside the repository. \<open>list\<close> stands for
  \<^verbatim>\<open>ListObjectsV2Pages\<close> on the bucket with delimiter \<^verbatim>\<open>/\<close>: given the prefix
  it fails with a transport error or delivers the pages of the listing, and the callback
  of \<^verbatim>\<open>Stat\<close> and \<^verbatim>\<open>Readdir\<close> (which always asks for the next page) appends every page's
  common prefixes and objects. \<^verbatim>\<open>LastModified\<close> is left out.
\<close>

record s3Object =
  Key :: string
  ObjSize :: int

record page =
  CommonPrefixes :: "string list"
  Contents :: "s3Object list"

record s3FileInfo =
  fi_name :: string
  fi_size :: int
  fi_isDir :: bool

definition keyPath :: "string \<Rightarrow> string" where
  "keyPath path = TrimPrefix (Clean (CHR ''/'' # path)) ''/''"

definition s3Err :: "string \<Rightarrow> string \<Rightarrow> error option \<Rightarrow> error option" where
  "s3Err op key err =
     (case err of
        None \<Rightarrow> None
      | Some e \<Rightarrow> Some (PathError op (TrimSuffix (CHR ''/'' # key) ''/'') e))"

text \<open>\<^verbatim>\<open>Stat\<close> and \<^verbatim>\<open>Readdir\<close> return Go's pair of a result and an error.\<close>

definition S3FileSystem_Stat ::
  "(string \<Rightarrow> error + page list) \<Rightarrow> string \<Rightarrow> s3FileInfo option \<times> error option" where
  "S3FileSystem_Stat list path =
     (let key = keyPath path
      in case list key of
           Inl err \<Rightarrow> (None, s3Err ''stat'' key (Some err))
         | Inr pages \<Rightarrow>
             let respCommonPrefixes = concat (map CommonPrefixes pages);
                 respContents = concat (map Contents pages);
                 expectedDir = key @ ''/''
             in (case find (\<lambda>pre. pre = expectedDir) respCommonPrefixes of
                   Some pre \<Rightarrow> (Some \<lparr>fi_name = Base pre, fi_size = 0, fi_isDir = True\<rparr>, None)
                 | None \<Rightarrow>
                     (case find (\<lambda>obj. Key obj = key) respContents of
                        Some obj \<Rightarrow>
                          (Some \<lparr>fi_name = Base (Key obj), fi_size = ObjSize obj, fi_isDir = False\<rparr>,
                           None)
                      | None \<Rightarrow> (None, s3Err ''stat'' key (Some ErrNoFile)))))"

text \<open>The listing prefix of \<^verbatim>\<open>Readdir\<close>: the key, with a slash appended unless it is
  empty or ends in one.\<close>

definition readdirPrefix :: "string \<Rightarrow> string" where
  "readdirPrefix path =
     (let key = keyPath path
      in if \<not> HasSuffix key ''/'' \<and> key \<noteq> [] then key @ ''/'' else key)"

definition S3FileSystem_Readdir ::
  "(string \<Rightarrow> error + page list) \<Rightarrow> string \<Rightarrow> s3FileInfo list \<times> error option" where
  "S3FileSystem_Readdir list path =
     (let key = readdirPrefix path
      in case list key of
           Inl err \<Rightarrow> ([], Some err)
         | Inr pages \<Rightarrow>
             let dirs = concat (map CommonPrefixes pages);
                 files = concat (map Contents pages)
             in if dirs = [] \<and> files = [] then ([], s3Err ''open'' key (Some ErrNoFile))
                else
                  let dirInfos = map (\<lambda>d. \<lparr>fi_name = TrimPrefix (TrimSuffix d ''/'') key,
                                            fi_size = 0, fi_isDir = True\<rparr>) dirs;
                      fileInfos = map (\<lambda>f. \<lparr>fi_name = ReplaceFirst (Key f) key,
                                             fi_size = ObjSize f, fi_isDir = False\<rparr>)
                                    (filter (\<lambda>f. ReplaceFirst (Key f) key \<noteq> []) files)
                  in (sort_key fi_name (dirInfos @ fileInfos), None))"


section \<open>Sample data\<close>

text \<open>
  A small tree in the shape of the repository's test fixtures:
  \<^verbatim>\<open>Mem(Dir("d", File("x", []byte("hi"))), File("top", nil))\<close>. The file \<^verbatim>\<open>x\<close> is node 0,
  the directory \<^verbatim>\<open>d\<close> node 1, the file \<^verbatim>\<open>top\<close> node 2 and the root node 3; the bytes
  of \<^verbatim>\<open>x\<close> are array 0.
\<close>

definition sampleHeap :: heap where
  "sampleHeap =
     (let (a, h1) = newArray ''hi'' emptyHeap;
          (x, h2) = File ''x'' (Some a) h1;
          (d, h3) = DirNode ''d'' [x] h2;
          (t, h4) = File ''top'' None h3;
          (r, h5) = Mem [d, t] h4
      in h5)"

definition sampleRoot :: addr where
  "sampleRoot = 3"

text \<open>A bucket listing in two pages: the object \<^verbatim>\<open>dir.txt\<close> and the objects below
  \<^verbatim>\<open>dir/\<close>, among them the marker \<^verbatim>\<open>dir/\<close> that \<^verbatim>\<open>Mkdir\<close> writes.\<close>

definition samplePages :: "string \<Rightarrow> error + page list" where
  "samplePages pre =
     (if pre = ''dir'' then
        Inr [\<lparr>CommonPrefixes = [], Contents = [\<lparr>Key = ''dir.txt'', ObjSize = 3\<rparr>]\<rparr>,
             \<lparr>CommonPrefixes = [''dir/''], Contents = []\<rparr>]
      else if pre = ''dir.txt'' then
        Inr [\<lparr>CommonPrefixes = [], Contents = [\<lparr>Key = ''dir.txt'', ObjSize = 3\<rparr>]\<rparr>]
      else if pre = ''dir/'' then
        Inr [\<lparr>CommonPrefixes = [''dir/sub/''],
              Contents = [\<lparr>Key = ''dir/'', ObjSize = 0\<rparr>, \<lparr>Key = ''dir/b.txt'', ObjSize = 1\<rparr>]\<rparr>,
             \<lparr>CommonPrefixes = [], Contents = [\<lparr>Key = ''dir/a.txt'', ObjSize = 2\<rparr>]\<rparr>]
      else Inr [])"


text \<open>The directory of the specification's ordering example: \<^verbatim>\<open>b.txt\<close>, \<^verbatim>\<open>a.txt\<close>
  and \<^verbatim>\<open>c.txt\<close> (nodes 0, 1, 2), inserted in this order below the root (node 3).\<close>

definition abcHeap :: heap where
  "abcHeap =
     (let (b, h1) = File ''b.txt'' None emptyHeap;
          (a, h2) = File ''a.txt'' None h1;
          (c, h3) = File ''c.txt'' None h2;
          (r, h4) = Mem [b, a, c] h3
      in h4)"

section \<open>Cleaned paths as lists of elements\<close>

text \<open>A real path element is not empty, not \<^verbatim>\<open>.\<close> or \<^verbatim>\<open>..\<close>, and has no slash.
  \<open>cleanElems p\<close> are the elements of \<^verbatim>\<open>Clean("/" + p)\<close>.\<close>

definition realElem :: "string \<Rightarrow> bool" where
  "realElem e = (e \<noteq> [] \<and> e \<noteq> ''.'' \<and> e \<noteq> ''..'' \<and> CHR ''/'' \<notin> set e)"

definition cleanElems :: "string \<Rightarrow> string list" where
  "cleanElems p = rev (foldl (cleanStep True) [] (Split p))"

section \<open>Describing heaps\<close>

text \<open>
  \<open>walk h mn parts\<close> lists the nodes whose child lists \<open>child h mn parts\<close> searches.
  \<open>heapOK\<close> says that the root and every child pointer of an allocated node point to
  allocated nodes, as all pointers of a Go program do. \<open>uniqueNames\<close> is the invariant of
  the data model: the children of a node have pairwise distinct names.
  \<open>setChildren d cs h\<close> is the heap \<open>h\<close> after the assignment \<^verbatim>\<open>d.children = cs\<close>.
\<close>

fun walk :: "heap \<Rightarrow> addr \<Rightarrow> string list \<Rightarrow> addr list" where
  "walk h mn [] = []"
| "walk h mn (p # ps) =
     (if ps = [] \<and> p = [] then []
      else mn # (case childByName h mn p of None \<Rightarrow> [] | Some c \<Rightarrow> walk h c ps))"

definition heapOK :: "heap \<Rightarrow> addr \<Rightarrow> bool" where
  "heapOK h mn = (mn < nextNode h \<and> (\<forall>a<nextNode h. \<forall>c\<in>set (children (nodes h a)). c < nextNode h))"

definition uniqueNames :: "heap \<Rightarrow> bool" where
  "uniqueNames h =
     list_all (\<lambda>a. distinct (map (\<lambda>c. name (nodes h c)) (children (nodes h a)))) [0..<nextNode h]"

definition setChildren :: "addr \<Rightarrow> addr list \<Rightarrow> heap \<Rightarrow> heap" where
  "setChildren d cs h = h\<lparr>nodes := (nodes h)(d := (nodes h d)\<lparr>children := cs\<rparr>)\<rparr>"

section \<open>Byte arrays and steps of the backend\<close>

text \<open>
  \<open>storeByte a i c\<close> is the Go assignment \<^verbatim>\<open>s[i] = c\<close> through a slice \<open>s\<close> over the
  array \<open>a\<close>, by whoever holds such a slice (the caller of \<^verbatim>\<open>File\<close> keeps the slice it
  passed); an index out of range panics in Go and stores nothing. \<open>sliceOK\<close> says that a
  slice points to an allocated array. \<open>arraysKept h h'\<close> says that every array allocated
  in \<open>h\<close> holds the same bytes in \<open>h'\<close>. \<open>backendStep mn h h'\<close> says that \<open>h'\<close> is the
  heap after one call of an operation of the backend, or of \<^verbatim>\<open>Close\<close> on a handle, in \<open>h\<close>.
\<close>

definition storeByte :: "nat \<Rightarrow> nat \<Rightarrow> char \<Rightarrow> heap \<Rightarrow> heap" where
  "storeByte a i c h =
     (if i < length (arrays h a) then h\<lparr>arrays := (arrays h)(a := (arrays h a)[i := c])\<rparr> else h)"

definition sliceOK :: "heap \<Rightarrow> slice \<Rightarrow> bool" where
  "sliceOK h s = (case s of None \<Rightarrow> True | Some a \<Rightarrow> a < nextArray h)"

definition arraysKept :: "heap \<Rightarrow> heap \<Rightarrow> bool" where
  "arraysKept h h' = (nextArray h \<le> nextArray h' \<and> (\<forall>a<nextArray h. arrays h' a = arrays h a))"

inductive backendStep :: "addr \<Rightarrow> heap \<Rightarrow> heap \<Rightarrow> bool" for mn :: addr where
  stepRemove: "backendStep mn h (snd (MemNode_Remove h mn p))"
| stepCreate: "backendStep mn h (snd (MemNode_Create h mn p))"
| stepClose: "backendStep mn h (snd (snd (memFile_Close h mf)))"
| stepCopy: "backendStep mn h (snd (MemNode_Copy h mn p source))"
| stepMove: "backendStep mn h (snd (MemNode_Move h mn p q))"
| stepMkdir: "backendStep mn h (snd (MemNode_Mkdir h mn p))"

section \<open>Writing a file\<close>

text \<open>
  \<open>createWriteClose h mn p bs\<close> is the heap after the sequence of the compliance tests:
  \<^verbatim>\<open>w, _ := fs.Create(p); w.Write(bs); w.Close()\<close>. \<open>parentAt h mn p d\<close> says that \<open>p\<close>
  is not the root, that the parent of \<open>p\<close> resolves to the directory \<open>d\<close>, and that the heap
  is well formed and a tree along this path: the walk from the root to \<open>d\<close> does not pass
  through \<open>d\<close>. \<open>fileAdded d nm bs h\<close> is the heap \<open>h\<close> with a new array holding \<open>bs\<close> and a
  new file node named \<open>nm\<close> over it, appended to the children of \<open>d\<close>.
\<close>

definition createWriteClose :: "heap \<Rightarrow> addr \<Rightarrow> string \<Rightarrow> char list \<Rightarrow> heap" where
  "createWriteClose h mn p bs =
     (case MemNode_Create h mn p of
        (Inl err, h1) \<Rightarrow> h1
      | (Inr w, h1) \<Rightarrow>
          (case memFile_Write w bs of
             (_, w') \<Rightarrow> (case memFile_Close h1 w' of (_, _, h2) \<Rightarrow> h2)))"

definition parentAt :: "heap \<Rightarrow> addr \<Rightarrow> string \<Rightarrow> addr \<Rightarrow> bool" where
  "parentAt h mn p d =
     (heapOK h mn \<and> cleanElems p \<noteq> []
      \<and> child h mn (butlast (cleanElems p)) = Some d \<and> isDir (nodes h d)
      \<and> d \<notin> set (walk h mn (butlast (cleanElems p))))"

definition fileAdded :: "addr \<Rightarrow> string \<Rightarrow> char list \<Rightarrow> heap \<Rightarrow> heap" where
  "fileAdded d nm bs h =
     appendChild d (nextNode h)
       (snd (newNode \<lparr>name = nm, isDir = False, content = Some (nextArray h), children = []\<rparr>
               (snd (newArray bs h))))"

section \<open>Evaluation rules\<close>

lemmas path_eval = Clean_def cleanStep_def Dir_def Base_def Join_def TrimPrefix_def TrimSuffix_def

lemmas heap_eval = sampleHeap_def sampleRoot_def newArray_def newNode_def File_def DirNode_def
  Mem_def emptyHeap_def childByName_def childByPath_def parentNode_def appendChild_def Let_def

lemma sample_nodes:
  "nodes sampleHeap 0 = \<lparr>name = ''x'', isDir = False, content = Some 0, children = []\<rparr>"
  "nodes sampleHeap (Suc 0) = \<lparr>name = ''d'', isDir = True, content = None, children = [0]\<rparr>"
  "nodes sampleHeap 2 = \<lparr>name = ''top'', isDir = False, content = None, children = []\<rparr>"
  "nodes sampleHeap 3 = \<lparr>name = [], isDir = True, content = None, children = [1, 2]\<rparr>"
  by (simp_all add: heap_eval)

section \<open>Lists\<close>

lemma find_eq_self: "x \<in> set xs \<Longrightarrow> find (\<lambda>y. y = x) xs = Some x"
  by (induction xs) auto

lemma find_not_mem: "x \<notin> set xs \<Longrightarrow> find (\<lambda>y. y = x) xs = None"
  by (induction xs) auto

lemma find_Key_Some:
  "k \<in> Key ` set objs \<Longrightarrow>
     \<exists>obj\<in>set objs. Key obj = k \<and> find (\<lambda>obj. Key obj = k) objs = Some obj"
  by (induction objs) auto

lemma find_Key_None: "k \<notin> Key ` set objs \<Longrightarrow> find (\<lambda>obj. Key obj = k) objs = None"
  by (induction objs) auto

section \<open>Move in the in-memory backend\<close>

text \<open>
  Claim C1. \<^verbatim>\<open>Move(src, dst)\<close> is to return the not-found sentinel, never crashing,
  whenever the source does not exist, also when the parent directory of the source path
  does not exist. The code reads \<^verbatim>\<open>src.children\<close> without the nil check that
  \<^verbatim>\<open>Remove\<close>, \<^verbatim>\<open>Create\<close> and \<^verbatim>\<open>Mkdir\<close> make: on the sample tree, which has no
  directory \<^verbatim>\<open>/nodir\<close>, \<^verbatim>\<open>Move("/nodir/x", "/y")\<close> ends in a nil-pointer panic and returns
  no error value.
\<close>

theorem Move_missing_parent_panics:
  "MemNode_Move sampleHeap sampleRoot ''/nodir/x'' ''/y'' = (Panic, sampleHeap)"
  by (simp add: MemNode_Move_def path_eval heap_eval)

section \<open>Error paths of the Subtree wrapper\<close>

text \<open>
  Claim C2. Every error a Subtree returns is to carry the backend's path with the root
  prefix stripped, for all eight operations. \<^verbatim>\<open>Copy\<close> and \<^verbatim>\<open>Move\<close> return the backend's
  error as it is, without the call of \<^verbatim>\<open>unmapError\<close> that the six other operations make:
  for the subtree of the sample tree rooted at \<^verbatim>\<open>/d\<close> (which \<^verbatim>\<open>Subtree\<close> accepts),
  \<^verbatim>\<open>Move("/missing", "/x")\<close> reports the path \<^verbatim>\<open>/d/missing\<close> and
  \<^verbatim>\<open>Copy("/nodir/f", ...)\<close> the path \<^verbatim>\<open>/d/nodir/f\<close>, where \<^verbatim>\<open>Remove("/missing")\<close>
  reports \<^verbatim>\<open>/missing\<close>.
\<close>

theorem subtree_Move_Copy_leak_root:
  "fst (Subtree (\<lambda>h c. isDir (nodes h c)) (MemFS sampleRoot) ''/d'' sampleHeap)
     = Inr (subtree (MemFS sampleRoot) ''/d'')
   \<and> fst (subtree_Move (MemFS sampleRoot) ''/d'' ''/missing'' ''/x'' sampleHeap)
     = Return (Some (PathError ''move'' ''/d/missing'' ErrNoFile))
   \<and> fst (subtree_Copy (MemFS sampleRoot) ''/d'' ''/nodir/f'' (Inr ''abc'') sampleHeap)
     = Some (PathError ''create'' ''/d/nodir/f'' (Errorf ''No parent directory /d/nodir''))
   \<and> fst (subtree_Remove (MemFS sampleRoot) ''/d'' ''/missing'' sampleHeap)
     = Some (PathError ''remove'' ''/missing'' ErrNoFile)"
  by (simp add: Subtree_def subtree_Move_def subtree_Copy_def subtree_Remove_def MemFS_def
      MemNode_Stat_def MemNode_Move_def MemNode_Copy_def MemNode_Create_def MemNode_Remove_def
      mapPath_def unmapError_def unmapPath_def path_eval heap_eval)

section \<open>Readdir in the in-memory backend\<close>

text \<open>
  Claim C3, as stated: \<^verbatim>\<open>Readdir(p)\<close> fails when \<open>p\<close> resolves to no node or to a node
  that is not a directory, in both cases with a cause other than the not-found sentinel.
  On the sample tree \<^verbatim>\<open>Readdir("/unreal")\<close> fails with the sentinel as its cause, and
  \<^verbatim>\<open>Readdir("/d/x")\<close>, on a file, does not fail: it returns the empty listing.
\<close>

theorem Readdir_sentinel_and_file_counterexample:
  "childByPath sampleHeap sampleRoot ''/unreal'' = None
   \<and> MemNode_Readdir sampleHeap sampleRoot ''/unreal'' = Inl (PathError ''open'' ''/unreal'' ErrNoFile)
   \<and> childByPath sampleHeap sampleRoot ''/d/x'' = Some 0
   \<and> \<not> isDir (nodes sampleHeap 0)
   \<and> MemNode_Readdir sampleHeap sampleRoot ''/d/x'' = Inr []"
  by (simp add: MemNode_Readdir_def sortFileInfos_def path_eval heap_eval)

text \<open>
  Claim C3, amended. When \<open>p\<close> resolves to no node, \<^verbatim>\<open>Readdir(p)\<close> fails with the
  operation \<^verbatim>\<open>open\<close>, the path as given and the not-found sentinel as cause. When \<open>p\<close>
  resolves to a directory, it returns that directory's children, each once, in ascending
  order of name. (Nothing is stated about a path that resolves to a node that is not a
  directory.)
\<close>

theorem Readdir_not_found_or_directory:
  "(childByPath h mn p = None \<longrightarrow> MemNode_Readdir h mn p = Inl (PathError ''open'' p ErrNoFile))
   \<and> (\<forall>node. childByPath h mn p = Some node \<and> isDir (nodes h node) \<longrightarrow>
         (\<exists>infos. MemNode_Readdir h mn p = Inr infos
            \<and> mset infos = mset (children (nodes h node))
            \<and> sorted (map (\<lambda>c. name (nodes h c)) infos)))"
  by (simp add: MemNode_Readdir_def sortFileInfos_def)

theorem Readdir_not_found_or_directory_witness:
  "MemNode_Readdir sampleHeap sampleRoot ''/unreal'' = Inl (PathError ''open'' ''/unreal'' ErrNoFile)
   \<and> isDir (nodes sampleHeap 3)
   \<and> (\<exists>infos. MemNode_Readdir sampleHeap sampleRoot ''/'' = Inr infos
         \<and> mset infos = mset [1, 2]
         \<and> sorted (map (\<lambda>c. name (nodes sampleHeap c)) infos))"
proof -
  have none: "childByPath sampleHeap sampleRoot ''/unreal'' = None"
    by (simp add: path_eval heap_eval)
  have some: "childByPath sampleHeap sampleRoot ''/'' = Some 3"
    by (simp add: path_eval heap_eval)
  have dir: "isDir (nodes sampleHeap 3)"
    by (simp add: sample_nodes)
  from Readdir_not_found_or_directory [of sampleHeap sampleRoot "''/unreal''"] none
  have "MemNode_Readdir sampleHeap sampleRoot ''/unreal'' = Inl (PathError ''open'' ''/unreal'' ErrNoFile)"
    by simp
  moreover from Readdir_not_found_or_directory [of sampleHeap sampleRoot "''/''"] some dir
  have "\<exists>infos. MemNode_Readdir sampleHeap sampleRoot ''/'' = Inr infos
         \<and> mset infos = mset (children (nodes sampleHeap 3))
         \<and> sorted (map (\<lambda>c. name (nodes sampleHeap c)) infos)"
    by simp
  ultimately show ?thesis
    using dir by (simp add: sample_nodes)
qed

section \<open>Stat in the object-store backend\<close>

text \<open>
  Claim C9. \<^verbatim>\<open>Stat(p)\<close> classifies \<open>p\<close> from the listing with prefix \<open>keyPath p\<close> and
  delimiter \<^verbatim>\<open>/\<close>, all pages taken together, whenever the listing succeeds: a common
  prefix equal to the key followed by the delimiter makes \<open>p\<close> a directory; failing that,
  an object whose key equals the key makes it a file, with that object's size; with
  neither, the result is the not-found sentinel, wrapped for the operation \<^verbatim>\<open>stat\<close>.
\<close>

theorem S3_Stat_classifies:
  assumes "list (keyPath p) = Inr pages"
  shows "(keyPath p @ ''/'' \<in> set (concat (map CommonPrefixes pages)) \<longrightarrow>
            S3FileSystem_Stat list p =
              (Some \<lparr>fi_name = Base (keyPath p @ ''/''), fi_size = 0, fi_isDir = True\<rparr>, None))
       \<and> (keyPath p @ ''/'' \<notin> set (concat (map CommonPrefixes pages))
            \<and> keyPath p \<in> Key ` set (concat (map Contents pages)) \<longrightarrow>
            (\<exists>obj. obj \<in> set (concat (map Contents pages)) \<and> Key obj = keyPath p \<and>
               S3FileSystem_Stat list p =
                 (Some \<lparr>fi_name = Base (keyPath p), fi_size = ObjSize obj, fi_isDir = False\<rparr>, None)))
       \<and> (keyPath p @ ''/'' \<notin> set (concat (map CommonPrefixes pages))
            \<and> keyPath p \<notin> Key ` set (concat (map Contents pages)) \<longrightarrow>
            S3FileSystem_Stat list p =
              (None, Some (PathError ''stat'' (TrimSuffix (CHR ''/'' # keyPath p) ''/'') ErrNoFile)))"
proof (intro conjI impI)
  assume "keyPath p @ ''/'' \<in> set (concat (map CommonPrefixes pages))"
  then show "S3FileSystem_Stat list p =
      (Some \<lparr>fi_name = Base (keyPath p @ ''/''), fi_size = 0, fi_isDir = True\<rparr>, None)"
    using assms by (simp add: S3FileSystem_Stat_def Let_def find_eq_self del: set_concat)
next
  assume a: "keyPath p @ ''/'' \<notin> set (concat (map CommonPrefixes pages))
      \<and> keyPath p \<in> Key ` set (concat (map Contents pages))"
  then obtain obj where o: "obj \<in> set (concat (map Contents pages))" "Key obj = keyPath p"
      "find (\<lambda>obj. Key obj = keyPath p) (concat (map Contents pages)) = Some obj"
    using find_Key_Some by blast
  have "S3FileSystem_Stat list p =
      (Some \<lparr>fi_name = Base (keyPath p), fi_size = ObjSize obj, fi_isDir = False\<rparr>, None)"
    using assms a o by (simp add: S3FileSystem_Stat_def Let_def find_not_mem del: set_concat)
  with o show "\<exists>obj. obj \<in> set (concat (map Contents pages)) \<and> Key obj = keyPath p \<and>
      S3FileSystem_Stat list p =
        (Some \<lparr>fi_name = Base (keyPath p), fi_size = ObjSize obj, fi_isDir = False\<rparr>, None)"
    by blast
next
  assume a: "keyPath p @ ''/'' \<notin> set (concat (map CommonPrefixes pages))
      \<and> keyPath p \<notin> Key ` set (concat (map Contents pages))"
  show "S3FileSystem_Stat list p =
      (None, Some (PathError ''stat'' (TrimSuffix (CHR ''/'' # keyPath p) ''/'') ErrNoFile))"
    using assms a
    by (simp add: S3FileSystem_Stat_def Let_def s3Err_def find_not_mem find_Key_None del: set_concat)
qed

lemma keyPath_samples:
  "keyPath ''/dir'' = ''dir''" "keyPath ''/dir.txt'' = ''dir.txt''" "keyPath ''/none'' = ''none''"
  by (simp_all add: keyPath_def path_eval)

theorem S3_Stat_classifies_witness:
  "S3FileSystem_Stat samplePages ''/dir'' = (Some \<lparr>fi_name = ''dir'', fi_size = 0, fi_isDir = True\<rparr>, None)
   \<and> S3FileSystem_Stat samplePages ''/dir.txt''
       = (Some \<lparr>fi_name = ''dir.txt'', fi_size = 3, fi_isDir = False\<rparr>, None)
   \<and> S3FileSystem_Stat samplePages ''/none'' = (None, Some (PathError ''stat'' ''/none'' ErrNoFile))"
proof -
  have d: "samplePages (keyPath ''/dir'') =
      Inr [\<lparr>CommonPrefixes = [], Contents = [\<lparr>Key = ''dir.txt'', ObjSize = 3\<rparr>]\<rparr>,
           \<lparr>CommonPrefixes = [''dir/''], Contents = []\<rparr>]"
    by (simp add: keyPath_samples samplePages_def)
  have f: "samplePages (keyPath ''/dir.txt'') =
      Inr [\<lparr>CommonPrefixes = [], Contents = [\<lparr>Key = ''dir.txt'', ObjSize = 3\<rparr>]\<rparr>]"
    by (simp add: keyPath_samples samplePages_def)
  have n: "samplePages (keyPath ''/none'') = Inr []"
    by (simp add: keyPath_samples samplePages_def)
  have "S3FileSystem_Stat samplePages ''/dir''
      = (Some \<lparr>fi_name = ''dir'', fi_size = 0, fi_isDir = True\<rparr>, None)"
    using S3_Stat_classifies [of samplePages "''/dir''", OF d] by (simp add: keyPath_samples Base_def)
  moreover have "S3FileSystem_Stat samplePages ''/dir.txt''
      = (Some \<lparr>fi_name = ''dir.txt'', fi_size = 3, fi_isDir = False\<rparr>, None)"
    using S3_Stat_classifies [of samplePages "''/dir.txt''", OF f] by (simp add: keyPath_samples Base_def)
  moreover have "S3FileSystem_Stat samplePages ''/none''
      = (None, Some (PathError ''stat'' ''/none'' ErrNoFile))"
    using S3_Stat_classifies [of samplePages "''/none''", OF n] by (simp add: keyPath_samples TrimSuffix_def suffix_to_prefix)
  ultimately show ?thesis by simp
qed

section \<open>Ordering of directory listings\<close>

lemma MemNode_Readdir_sorted:
  "MemNode_Readdir h mn p = Inr infos \<Longrightarrow> sorted (map (\<lambda>c. name (nodes h c)) infos)"
  by (cases "childByPath h mn p") (auto simp: MemNode_Readdir_def sortFileInfos_def)

lemma S3_Readdir_sorted:
  "S3FileSystem_Readdir list q = (infos, None) \<Longrightarrow> sorted (map fi_name infos)"
  unfolding S3FileSystem_Readdir_def Let_def
  by (cases "list (readdirPrefix q)") (auto simp: s3Err_def split: if_splits)

lemma S3_Readdir_all_pages:
  assumes "S3FileSystem_Readdir list q = (infos, None)" and "list (readdirPrefix q) = Inr pages"
  shows "mset (map fi_name infos) =
           mset (map (\<lambda>d. TrimPrefix (TrimSuffix d ''/'') (readdirPrefix q))
                   (concat (map CommonPrefixes pages)))
         + mset (filter (\<lambda>n. n \<noteq> [])
                   (map (\<lambda>f. ReplaceFirst (Key f) (readdirPrefix q)) (concat (map Contents pages))))"
proof -
  let ?k = "readdirPrefix q"
  let ?dirs = "concat (map CommonPrefixes pages)"
  let ?files = "concat (map Contents pages)"
  have "infos = sort_key fi_name
      (map (\<lambda>d. \<lparr>fi_name = TrimPrefix (TrimSuffix d ''/'') ?k, fi_size = 0, fi_isDir = True\<rparr>) ?dirs
       @ map (\<lambda>f. \<lparr>fi_name = ReplaceFirst (Key f) ?k, fi_size = ObjSize f, fi_isDir = False\<rparr>)
           (filter (\<lambda>f. ReplaceFirst (Key f) ?k \<noteq> []) ?files))"
    using assms unfolding S3FileSystem_Readdir_def Let_def
    by (simp add: s3Err_def split: if_splits)
  then have "mset (map fi_name infos) =
      mset (map (\<lambda>d. TrimPrefix (TrimSuffix d ''/'') ?k) ?dirs)
      + mset (map (\<lambda>f. ReplaceFirst (Key f) ?k) (filter (\<lambda>f. ReplaceFirst (Key f) ?k \<noteq> []) ?files))"
    by (simp add: multiset.map_comp comp_def del: set_concat)
  moreover have "map (\<lambda>f. ReplaceFirst (Key f) ?k) (filter (\<lambda>f. ReplaceFirst (Key f) ?k \<noteq> []) ?files)
      = filter (\<lambda>n. n \<noteq> []) (map (\<lambda>f. ReplaceFirst (Key f) ?k) ?files)"
    by (simp add: filter_map comp_def)
  ultimately show ?thesis by simp
qed

lemma subtree_Readdir_same:
  "Readdir fs (mapPath root r) s = (Inr entries, s') \<Longrightarrow> subtree_Readdir fs root r s = (Inr entries, s')"
  by (simp add: subtree_Readdir_def)

text \<open>
  Claim C7. A successful \<^verbatim>\<open>Readdir\<close> returns its entries in ascending order of name:
  in the in-memory backend whatever the order of the children in the node; in the
  object-store backend for the entries of all pages of the listing together (every common
  prefix and every object of every page is in the result, under its trimmed name, unless
  the trimmed name of an object is empty); and a Subtree hands on the listing of the
  wrapped backend unchanged, so it is ordered when the backend's is.
\<close>

theorem Readdir_sorted_by_name:
  "(MemNode_Readdir h mn p = Inr infos \<longrightarrow> sorted (map (\<lambda>c. name (nodes h c)) infos))
   \<and> (S3FileSystem_Readdir list q = (infos', None) \<longrightarrow> sorted (map fi_name infos'))
   \<and> (S3FileSystem_Readdir list q = (infos', None) \<and> list (readdirPrefix q) = Inr pages \<longrightarrow>
        mset (map fi_name infos') =
           mset (map (\<lambda>d. TrimPrefix (TrimSuffix d ''/'') (readdirPrefix q))
                   (concat (map CommonPrefixes pages)))
         + mset (filter (\<lambda>n. n \<noteq> [])
                   (map (\<lambda>f. ReplaceFirst (Key f) (readdirPrefix q)) (concat (map Contents pages)))))
   \<and> (Readdir fs (mapPath root r) s = (Inr entries, s') \<longrightarrow>
        subtree_Readdir fs root r s = (Inr entries, s'))"
proof (intro conjI impI)
  assume "MemNode_Readdir h mn p = Inr infos"
  then show "sorted (map (\<lambda>c. name (nodes h c)) infos)"
    by (rule MemNode_Readdir_sorted)
next
  assume "S3FileSystem_Readdir list q = (infos', None)"
  then show "sorted (map fi_name infos')"
    by (rule S3_Readdir_sorted)
next
  assume "S3FileSystem_Readdir list q = (infos', None) \<and> list (readdirPrefix q) = Inr pages"
  then show "mset (map fi_name infos') =
           mset (map (\<lambda>d. TrimPrefix (TrimSuffix d ''/'') (readdirPrefix q))
                   (concat (map CommonPrefixes pages)))
         + mset (filter (\<lambda>n. n \<noteq> [])
                   (map (\<lambda>f. ReplaceFirst (Key f) (readdirPrefix q)) (concat (map Contents pages))))"
    using S3_Readdir_all_pages [of list q infos' pages] by (elim conjE)
next
  assume "Readdir fs (mapPath root r) s = (Inr entries, s')"
  then show "subtree_Readdir fs root r s = (Inr entries, s')"
    by (rule subtree_Readdir_same)
qed

lemma abc_nodes:
  "nodes abcHeap 0 = \<lparr>name = ''b.txt'', isDir = False, content = None, children = []\<rparr>"
  "nodes abcHeap (Suc 0) = \<lparr>name = ''a.txt'', isDir = False, content = None, children = []\<rparr>"
  "nodes abcHeap 2 = \<lparr>name = ''c.txt'', isDir = False, content = None, children = []\<rparr>"
  "nodes abcHeap 3 = \<lparr>name = [], isDir = True, content = None, children = [0, 1, 2]\<rparr>"
  by (simp_all add: abcHeap_def newNode_def File_def DirNode_def Mem_def emptyHeap_def)

lemma abc_Readdir: "MemNode_Readdir abcHeap 3 ''/'' = Inr [1, 0, 2]"
  by (simp add: MemNode_Readdir_def sortFileInfos_def childByPath_def path_eval abc_nodes)

lemma sample_S3_Readdir:
  "S3FileSystem_Readdir samplePages ''/dir'' =
     ([\<lparr>fi_name = ''a.txt'', fi_size = 2, fi_isDir = False\<rparr>,
       \<lparr>fi_name = ''b.txt'', fi_size = 1, fi_isDir = False\<rparr>,
       \<lparr>fi_name = ''sub'', fi_size = 0, fi_isDir = True\<rparr>], None)"
  by (simp add: S3FileSystem_Readdir_def readdirPrefix_def keyPath_samples HasSuffix_def
      suffix_to_prefix samplePages_def TrimPrefix_def TrimSuffix_def)

theorem Readdir_sorted_by_name_witness:
  "MemNode_Readdir abcHeap 3 ''/'' = Inr [1, 0, 2]
   \<and> map (\<lambda>c. name (nodes abcHeap c)) [1, 0, 2] = [''a.txt'', ''b.txt'', ''c.txt'']
   \<and> sorted [''a.txt'', ''b.txt'', ''c.txt'']
   \<and> fst (S3FileSystem_Readdir samplePages ''/dir'') =
       [\<lparr>fi_name = ''a.txt'', fi_size = 2, fi_isDir = False\<rparr>,
        \<lparr>fi_name = ''b.txt'', fi_size = 1, fi_isDir = False\<rparr>,
        \<lparr>fi_name = ''sub'', fi_size = 0, fi_isDir = True\<rparr>]
   \<and> sorted [''a.txt'', ''b.txt'', ''sub'']
   \<and> subtree_Readdir (MemFS 3) ''/'' ''/'' abcHeap = (Inr [1, 0, 2], abcHeap)"
proof -
  have m: "mapPath ''/'' ''/'' = ''/''"
    by (simp add: mapPath_def path_eval)
  have b: "Readdir (MemFS 3) (mapPath ''/'' ''/'') abcHeap = (Inr [1, 0, 2], abcHeap)"
    by (simp add: MemFS_def m abc_Readdir)
  have names: "map (\<lambda>c. name (nodes abcHeap c)) [1, 0, 2] = [''a.txt'', ''b.txt'', ''c.txt'']"
    by (simp add: abc_nodes)
  from Readdir_sorted_by_name [of abcHeap 3 "''/''" "[1, 0, 2]" samplePages "''/dir''"
      "fst (S3FileSystem_Readdir samplePages ''/dir'')" "[]" "MemFS 3" "''/''" "''/''" abcHeap
      "[1, 0, 2]" abcHeap]
  have "sorted (map (\<lambda>c. name (nodes abcHeap c)) [1, 0, 2])
      \<and> sorted (map fi_name (fst (S3FileSystem_Readdir samplePages ''/dir'')))
      \<and> subtree_Readdir (MemFS 3) ''/'' ''/'' abcHeap = (Inr [1, 0, 2], abcHeap)"
    using abc_Readdir b sample_S3_Readdir by simp
  then show ?thesis
    using abc_Readdir names sample_S3_Readdir by simp
qed

section \<open>Facts about cleaned paths\<close>

lemma Split_not_Nil [simp]: "Split s \<noteq> []"
  by (induction s) (auto split: list.splits)

lemma Split_noslash: "e \<in> set (Split s) \<Longrightarrow> CHR ''/'' \<notin> set e"
  by (induction s arbitrary: e) (auto split: list.splits if_splits)

lemma Split_append_slash: "Split (a @ CHR ''/'' # b) = Split a @ Split b"
  by (induction a) (auto split: list.splits)

lemma Split_noslash_id: "CHR ''/'' \<notin> set s \<Longrightarrow> Split s = [s]"
  by (induction s) auto

lemma Split_JoinSlash:
  "xs \<noteq> [] \<Longrightarrow> \<forall>e\<in>set xs. CHR ''/'' \<notin> set e \<Longrightarrow> Split (JoinSlash xs) = xs"
  by (induction xs rule: JoinSlash.induct) (auto simp: Split_append_slash Split_noslash_id)

lemma cleanStep_real: "realElem e \<Longrightarrow> cleanStep r out e = e # out"
  by (auto simp: cleanStep_def realElem_def)

lemma foldl_cleanStep_real:
  "\<forall>e\<in>set es. realElem e \<Longrightarrow> foldl (cleanStep r) acc es = rev es @ acc"
  by (induction es arbitrary: acc) (auto simp: cleanStep_real)

lemma cleanStep_rooted_real:
  "\<forall>e\<in>set out. realElem e \<Longrightarrow> CHR ''/'' \<notin> set e \<Longrightarrow> \<forall>x\<in>set (cleanStep True out e). realElem x"
  by (cases out) (auto simp: cleanStep_def realElem_def)

lemma foldl_cleanStep_rooted_real:
  "\<forall>e\<in>set acc. realElem e \<Longrightarrow> \<forall>e\<in>set es. CHR ''/'' \<notin> set e \<Longrightarrow>
     \<forall>x\<in>set (foldl (cleanStep True) acc es). realElem x"
proof (induction es arbitrary: acc)
  case Nil
  then show ?case by simp
next
  case (Cons e es)
  have "\<forall>x\<in>set (cleanStep True acc e). realElem x"
    using Cons.prems by (intro cleanStep_rooted_real) auto
  then show ?case
    using Cons.IH [of "cleanStep True acc e"] Cons.prems by simp
qed

lemma cleanElems_real: "e \<in> set (cleanElems p) \<Longrightarrow> realElem e"
  using foldl_cleanStep_rooted_real [of "[]" "Split p"] Split_noslash
  by (auto simp: cleanElems_def)

lemma cleanStep_Nil [simp]: "cleanStep r out [] = out"
  by (simp add: cleanStep_def)

lemma Clean_rooted: "Clean (CHR ''/'' # p) = CHR ''/'' # JoinSlash (cleanElems p)"
  by (simp add: Clean_def cleanElems_def)

lemma cleanElems_rooted_join:
  assumes "\<forall>e\<in>set xs. realElem e"
  shows "cleanElems (CHR ''/'' # JoinSlash xs) = xs"
proof (cases "xs = []")
  case True
  then show ?thesis by (simp add: cleanElems_def)
next
  case False
  have "\<forall>e\<in>set xs. CHR ''/'' \<notin> set e"
    using assms by (auto simp: realElem_def)
  then have "Split (JoinSlash xs) = xs"
    using False by (simp add: Split_JoinSlash)
  then show ?thesis
    using assms by (simp add: cleanElems_def foldl_cleanStep_real)
qed

lemma cleanElems_Clean: "cleanElems (Clean (CHR ''/'' # p)) = cleanElems p"
  using cleanElems_rooted_join [of "cleanElems p"] cleanElems_real
  by (simp add: Clean_rooted)

lemma Clean_idem: "Clean (CHR ''/'' # Clean (CHR ''/'' # p)) = Clean (CHR ''/'' # p)"
  by (simp add: Clean_rooted [of "Clean (CHR ''/'' # p)"] cleanElems_Clean) (simp add: Clean_rooted)

lemma Split_drop_Clean:
  "Split (drop 1 (Clean (CHR ''/'' # p))) = (if cleanElems p = [] then [[]] else cleanElems p)"
proof (cases "cleanElems p = []")
  case True
  then show ?thesis by (simp add: Clean_rooted)
next
  case False
  have "\<forall>e\<in>set (cleanElems p). CHR ''/'' \<notin> set e"
    using cleanElems_real by (auto simp: realElem_def)
  then show ?thesis
    using False by (simp add: Clean_rooted Split_JoinSlash)
qed

lemma last_slash_decomp:
  assumes "CHR ''/'' \<in> set s"
  obtains a b where "s = a @ CHR ''/'' # b" "CHR ''/'' \<notin> set b"
  using assms split_list_last [of "CHR ''/''" s] by blast

lemma Split_upto_last_slash:
  "Split (rev (dropWhile (\<lambda>c. c \<noteq> CHR ''/'') (rev s))) = butlast (Split s) @ [[]]"
proof (cases "CHR ''/'' \<in> set s")
  case False
  then have d: "dropWhile (\<lambda>c. c \<noteq> CHR ''/'') (rev s) = []"
    by (auto simp: dropWhile_eq_Nil_conv)
  show ?thesis
    using False by (simp add: d Split_noslash_id)
next
  case True
  then obtain a b where ab: "s = a @ CHR ''/'' # b" "CHR ''/'' \<notin> set b"
    by (rule last_slash_decomp)
  have "dropWhile (\<lambda>c. c \<noteq> CHR ''/'') (rev b @ CHR ''/'' # rev a) = CHR ''/'' # rev a"
    using ab(2) by (subst dropWhile_append2) auto
  then have "rev (dropWhile (\<lambda>c. c \<noteq> CHR ''/'') (rev s)) = a @ [CHR ''/'']"
    using ab(1) by simp
  then show ?thesis
    using ab by (simp add: Split_append_slash Split_noslash_id butlast_append)
qed

lemma after_last_slash:
  "rev (takeWhile (\<lambda>c. c \<noteq> CHR ''/'') (rev s)) = last (Split s)"
proof (cases "CHR ''/'' \<in> set s")
  case False
  then have t: "takeWhile (\<lambda>c. c \<noteq> CHR ''/'') (rev s) = rev s"
    by (auto simp: takeWhile_eq_all_conv)
  show ?thesis
    using False by (simp add: t Split_noslash_id)
next
  case True
  then obtain a b where ab: "s = a @ CHR ''/'' # b" "CHR ''/'' \<notin> set b"
    by (rule last_slash_decomp)
  have "takeWhile (\<lambda>c. c \<noteq> CHR ''/'') (rev b @ CHR ''/'' # rev a) = rev b"
    using ab(2) by (subst takeWhile_append2) auto
  then show ?thesis
    using ab by (simp add: Split_append_slash Split_noslash_id)
qed

lemma upto_last_slash_rooted:
  "rev (dropWhile (\<lambda>c. c \<noteq> CHR ''/'') (rev (CHR ''/'' # s))) \<noteq> []
   \<and> hd (rev (dropWhile (\<lambda>c. c \<noteq> CHR ''/'') (rev (CHR ''/'' # s)))) = CHR ''/''"
proof -
  obtain a b where ab: "CHR ''/'' # s = a @ CHR ''/'' # b" "CHR ''/'' \<notin> set b"
    using last_slash_decomp [of "CHR ''/'' # s"] by auto
  have "dropWhile (\<lambda>c. c \<noteq> CHR ''/'') (rev b @ CHR ''/'' # rev a) = CHR ''/'' # rev a"
    using ab(2) by (subst dropWhile_append2) auto
  then have t: "rev (dropWhile (\<lambda>c. c \<noteq> CHR ''/'') (rev (CHR ''/'' # s))) = a @ [CHR ''/'']"
    using ab(1) by simp
  have "hd (a @ [CHR ''/'']) = CHR ''/''"
    using ab(1) by (cases a) auto
  with t show ?thesis by simp
qed

lemma Dir_rooted_fold:
  "Dir (CHR ''/'' # s) =
     CHR ''/'' # JoinSlash (rev (foldl (cleanStep True) [] (butlast (Split (CHR ''/'' # s)))))"
  using upto_last_slash_rooted [of s]
  by (simp add: Dir_def Clean_def Split_upto_last_slash del: Split.simps rev.simps)

lemma Dir_rooted_join:
  assumes "\<forall>e\<in>set xs. realElem e"
  shows "Dir (CHR ''/'' # JoinSlash xs) = CHR ''/'' # JoinSlash (butlast xs)"
proof (cases "xs = []")
  case True
  then show ?thesis by (simp add: Dir_rooted_fold)
next
  case False
  have ns: "\<forall>e\<in>set xs. CHR ''/'' \<notin> set e"
    using assms by (auto simp: realElem_def)
  have "Split (CHR ''/'' # JoinSlash xs) = [] # xs"
    using False ns by (simp add: Split_JoinSlash)
  moreover have "\<forall>e\<in>set (butlast xs). realElem e"
    using assms by (auto dest: in_set_butlastD)
  ultimately show ?thesis
    using False by (simp add: Dir_rooted_fold foldl_cleanStep_real del: Split.simps)
qed

lemma Dir_Clean: "Dir (Clean (CHR ''/'' # p)) = CHR ''/'' # JoinSlash (butlast (cleanElems p))"
  using Dir_rooted_join [of "cleanElems p"] cleanElems_real by (simp add: Clean_rooted)

lemma JoinSlash_not_Nil: "xs \<noteq> [] \<Longrightarrow> last xs \<noteq> [] \<Longrightarrow> JoinSlash xs \<noteq> []"
  by (induction xs rule: JoinSlash.induct) auto

lemma last_JoinSlash: "xs \<noteq> [] \<Longrightarrow> last xs \<noteq> [] \<Longrightarrow> last (JoinSlash xs) = last (last xs)"
  by (induction xs rule: JoinSlash.induct) (auto simp: JoinSlash_not_Nil)

lemma stripSlashes_id: "s \<noteq> [] \<Longrightarrow> hd s \<noteq> CHR ''/'' \<Longrightarrow> stripSlashes s = s"
  by (cases s) auto

lemma Base_no_trailing_slash:
  assumes "s \<noteq> []" and "last s \<noteq> CHR ''/''"
  shows "Base s = last (Split s)"
proof -
  have "hd (rev s) \<noteq> CHR ''/''"
    using assms by (simp add: hd_rev)
  then have st: "stripSlashes (rev s) = rev s"
    using assms(1) by (intro stripSlashes_id) auto
  have tk: "takeWhile (\<lambda>c. c \<noteq> CHR ''/'') (rev s) \<noteq> []"
    using assms by (cases "rev s") (auto simp: hd_rev)
  have "Base s = rev (takeWhile (\<lambda>c. c \<noteq> CHR ''/'') (rev s))"
    using assms(1) tk by (simp add: Base_def st Let_def)
  then show ?thesis
    by (simp only: after_last_slash)
qed

lemma Base_rooted_join:
  assumes "\<forall>e\<in>set xs. realElem e"
  shows "Base (CHR ''/'' # JoinSlash xs) = (if xs = [] then ''/'' else last xs)"
proof (cases "xs = []")
  case True
  then show ?thesis by (simp add: Base_def)
next
  case False
  have ns: "\<forall>e\<in>set xs. CHR ''/'' \<notin> set e"
    using assms by (auto simp: realElem_def)
  have lr: "realElem (last xs)"
    using assms False by simp
  then have ln: "last xs \<noteq> []" and lns: "CHR ''/'' \<notin> set (last xs)"
    by (auto simp: realElem_def)
  have jn: "JoinSlash xs \<noteq> []"
    using False ln by (rule JoinSlash_not_Nil)
  have l: "last (CHR ''/'' # JoinSlash xs) = last (last xs)"
    using False ln jn by (simp add: last_JoinSlash)
  have "last (last xs) \<noteq> CHR ''/''"
    using ln lns last_in_set by metis
  then have "Base (CHR ''/'' # JoinSlash xs) = last (Split (CHR ''/'' # JoinSlash xs))"
    using l by (intro Base_no_trailing_slash) auto
  moreover have "last (Split (CHR ''/'' # JoinSlash xs)) = last xs"
    using False ns by (simp add: Split_JoinSlash)
  ultimately show ?thesis
    using False by simp
qed

lemma Base_Clean:
  "Base (Clean (CHR ''/'' # p)) = (if cleanElems p = [] then ''/'' else last (cleanElems p))"
  using Base_rooted_join [of "cleanElems p"] cleanElems_real by (simp add: Clean_rooted)

lemma Base_real: "realElem e \<Longrightarrow> Base e = e"
proof -
  assume r: "realElem e"
  then have ne: "e \<noteq> []" and ns: "CHR ''/'' \<notin> set e"
    by (auto simp: realElem_def)
  have "last e \<noteq> CHR ''/''"
    using ne ns last_in_set by metis
  then have "Base e = last (Split e)"
    using ne by (intro Base_no_trailing_slash)
  then show ?thesis
    using ns by (simp add: Split_noslash_id)
qed

lemma Base_Base_Clean: "Base (Base (Clean (CHR ''/'' # p))) = Base (Clean (CHR ''/'' # p))"
proof (cases "cleanElems p = []")
  case True
  then show ?thesis by (simp add: Base_Clean) (simp add: Base_def)
next
  case False
  then have "realElem (last (cleanElems p))"
    by (intro cleanElems_real [of _ p]) simp
  then show ?thesis
    using False by (simp add: Base_Clean Base_real)
qed

lemma child_empty_elem [simp]: "child h mn [[]] = Some mn"
  by simp

lemma childByPath_elems: "childByPath h mn p = child h mn (cleanElems p)"
  unfolding childByPath_def Split_drop_Clean by simp

lemma childByPath_Clean: "childByPath h mn (Clean (CHR ''/'' # p)) = childByPath h mn p"
  by (simp add: childByPath_elems cleanElems_Clean)

lemma butlast_cleanElems_real: "\<forall>e\<in>set (butlast (cleanElems p)). realElem e"
  using cleanElems_real by (auto dest: in_set_butlastD)

lemma childByPath_Dir:
  "childByPath h mn (Dir (Clean (CHR ''/'' # p))) = child h mn (butlast (cleanElems p))"
  using butlast_cleanElems_real [of p]
  by (simp add: childByPath_elems Dir_Clean cleanElems_rooted_join)

lemma parentNode_elems: "parentNode h mn p = child h mn (butlast (cleanElems p))"
  by (simp add: parentNode_def childByPath_Dir)

lemma parentNode_Clean: "parentNode h mn (Clean (CHR ''/'' # p)) = parentNode h mn p"
  by (simp add: parentNode_elems cleanElems_Clean)




section \<open>Paths that leave a Subtree\<close>



section \<open>Resolution of paths in a heap\<close>

lemma find_cong_set:
  "xs = ys \<Longrightarrow> (\<And>x. x \<in> set ys \<Longrightarrow> P x = Q x) \<Longrightarrow> find P xs = find Q ys"
  by (induction ys arbitrary: xs) auto

lemma find_Some_set: "find P xs = Some x \<Longrightarrow> x \<in> set xs \<and> P x"
  by (induction xs) (auto split: if_splits)

lemma find_None_set: "(find P xs = None) = (\<forall>x\<in>set xs. \<not> P x)"
  by (induction xs) auto

lemma childByName_in_children: "childByName h mn nm = Some c \<Longrightarrow> c \<in> set (children (nodes h mn))"
  by (auto simp: childByName_def dest: find_Some_set)

lemma childByName_name: "childByName h mn nm = Some c \<Longrightarrow> name (nodes h c) = nm"
  by (auto simp: childByName_def dest: find_Some_set)

lemma childByName_frame:
  assumes "children (nodes h' mn) = children (nodes h mn)"
    and "\<forall>c\<in>set (children (nodes h mn)). name (nodes h' c) = name (nodes h c)"
  shows "childByName h' mn nm = childByName h mn nm"
  unfolding childByName_def using assms by (intro find_cong_set) auto

lemma child_Cons:
  "\<not> (ps = [] \<and> p = []) \<Longrightarrow>
     child h mn (p # ps) = (case childByName h mn p of None \<Rightarrow> None | Some c \<Rightarrow> child h c ps)"
  by auto

lemma walk_Cons:
  "\<not> (ps = [] \<and> p = []) \<Longrightarrow>
     walk h mn (p # ps) = mn # (case childByName h mn p of None \<Rightarrow> [] | Some c \<Rightarrow> walk h c ps)"
  by auto

lemma child_walk_frame:
  assumes "\<forall>a\<in>set (walk h mn ps). children (nodes h' a) = children (nodes h a)"
    and "\<forall>a\<in>set (walk h mn ps). \<forall>c\<in>set (children (nodes h a)). name (nodes h' c) = name (nodes h c)"
  shows "child h' mn ps = child h mn ps \<and> walk h' mn ps = walk h mn ps"
  using assms
proof (induction ps arbitrary: mn)
  case Nil
  then show ?case by simp
next
  case (Cons p ps)
  show ?case
  proof (cases "ps = [] \<and> p = []")
    case True
    then show ?thesis by simp
  next
    case False
    note w = walk_Cons [OF False, of h mn] and w' = walk_Cons [OF False, of h' mn]
    note ch = child_Cons [OF False, of h mn] and ch' = child_Cons [OF False, of h' mn]
    have cn: "childByName h' mn p = childByName h mn p"
      using Cons.prems w by (intro childByName_frame) auto
    show ?thesis
    proof (cases "childByName h mn p")
      case None
      then show ?thesis using cn by (simp only: w w' ch ch' option.case)
    next
      case (Some c)
      have sub: "set (walk h c ps) \<subseteq> set (walk h mn (p # ps))"
        using w Some by auto
      have "child h' c ps = child h c ps \<and> walk h' c ps = walk h c ps"
        using Cons.prems sub by (intro Cons.IH) blast+
      then show ?thesis using cn Some by (simp only: w w' ch ch' option.case)
    qed
  qed
qed

lemma walk_allocated:
  "heapOK h mn \<Longrightarrow> a \<in> set (walk h mn ps) \<Longrightarrow> a < nextNode h"
proof (induction ps arbitrary: mn)
  case Nil
  then show ?case by simp
next
  case (Cons p ps)
  show ?case
  proof (cases "ps = [] \<and> p = []")
    case True
    then show ?thesis using Cons.prems by simp
  next
    case False
    note w = walk_Cons [OF False, of h mn]
    show ?thesis
    proof (cases "childByName h mn p")
      case None
      then have "a = mn" using Cons.prems(2) by (simp only: w option.case) simp
      then show ?thesis using Cons.prems(1) by (simp add: heapOK_def)
    next
      case (Some c)
      then have "a = mn \<or> a \<in> set (walk h c ps)"
        using Cons.prems(2) by (simp only: w option.case) simp
      moreover have "c < nextNode h"
        using Cons.prems(1) childByName_in_children [OF Some] by (auto simp: heapOK_def)
      then have "heapOK h c"
        using Cons.prems(1) by (simp add: heapOK_def)
      ultimately show ?thesis
        using Cons.IH [of c] Cons.prems(1) by (auto simp: heapOK_def)
    qed
  qed
qed

lemma child_allocated:
  "heapOK h mn \<Longrightarrow> child h mn ps = Some d \<Longrightarrow> d < nextNode h"
proof (induction ps arbitrary: mn)
  case Nil
  then show ?case by (simp add: heapOK_def)
next
  case (Cons p ps)
  show ?case
  proof (cases "ps = [] \<and> p = []")
    case True
    then show ?thesis using Cons.prems by (simp add: heapOK_def)
  next
    case False
    note ch = child_Cons [OF False, of h mn]
    show ?thesis
    proof (cases "childByName h mn p")
      case None
      then show ?thesis using Cons.prems(2) by (simp only: ch option.case) simp
    next
      case (Some c)
      then have cd: "child h c ps = Some d"
        using Cons.prems(2) by (simp only: ch option.case)
      have "c < nextNode h"
        using Cons.prems(1) childByName_in_children [OF Some] by (auto simp: heapOK_def)
      then have "heapOK h c"
        using Cons.prems(1) by (simp add: heapOK_def)
      then show ?thesis using cd by (rule Cons.IH)
    qed
  qed
qed

lemma child_append:
  "\<forall>e\<in>set ps. e \<noteq> [] \<Longrightarrow>
     child h mn (ps @ qs) = (case child h mn ps of None \<Rightarrow> None | Some d \<Rightarrow> child h d qs)"
  by (induction ps arbitrary: mn) (auto split: option.splits)

lemma child_single: "e \<noteq> [] \<Longrightarrow> child h mn [e] = childByName h mn e"
  by (simp split: option.splits)

lemma length_filter_same: "(length (filter P xs) = length xs) = (\<forall>x\<in>set xs. P x)"
proof (induction xs)
  case Nil
  then show ?case by simp
next
  case (Cons x xs)
  have "length (filter P xs) \<le> length xs" by simp
  then have "length (filter P xs) \<noteq> Suc (length xs)" by arith
  then show ?case using Cons by auto
qed

lemma childByName_None: "(childByName h d nm = None) = (\<forall>c\<in>set (children (nodes h d)). name (nodes h c) \<noteq> nm)"
  by (simp add: childByName_def find_None_set)

lemma filter_distinct_name:
  "distinct (map f xs) \<Longrightarrow> find (\<lambda>x. f x = k) xs = Some c \<Longrightarrow> filter (\<lambda>x. f x \<noteq> k) xs = remove1 c xs"
proof (induction xs)
  case Nil
  then show ?case by simp
next
  case (Cons x xs)
  show ?case
  proof (cases "f x = k")
    case True
    then have "c = x" using Cons.prems(2) by simp
    moreover have "\<forall>y\<in>set xs. f y \<noteq> k" using Cons.prems(1) True by (auto simp: image_iff)
    then have "filter (\<lambda>x. f x \<noteq> k) xs = xs" by (simp add: filter_id_conv)
    ultimately show ?thesis using True by simp
  next
    case False
    then have "find (\<lambda>x. f x = k) xs = Some c" using Cons.prems(2) by simp
    moreover have "c \<noteq> x" using calculation False by (auto dest: find_Some_set)
    ultimately show ?thesis using Cons False by simp
  qed
qed

lemma Remove_unfold:
  "MemNode_Remove h mn p =
     (case parentNode h mn p of
        None \<Rightarrow> (Some (PathError ''remove'' (Clean (CHR ''/'' # p))
                    (Errorf (''No parent directory '' @ Clean (CHR ''/'' # p)))), h)
      | Some d \<Rightarrow>
          if \<not> isDir (nodes h d)
          then (Some (PathError ''remove'' (Clean (CHR ''/'' # p))
                    (Errorf (''No parent directory '' @ Clean (CHR ''/'' # p)))), h)
          else if childByName h d (Base (Clean (CHR ''/'' # p))) = None
          then (Some (PathError ''remove'' (Clean (CHR ''/'' # p)) ErrNoFile), h)
          else (None, setChildren d
                  (filter (\<lambda>c. name (nodes h c) \<noteq> Base (Clean (CHR ''/'' # p))) (children (nodes h d))) h))"
  unfolding MemNode_Remove_def Let_def parentNode_Clean setChildren_def
  by (simp add: length_filter_same childByName_None split: option.splits)

lemma setChildren_simps [simp]:
  "nextNode (setChildren d cs h) = nextNode h"
  "arrays (setChildren d cs h) = arrays h"
  "nextArray (setChildren d cs h) = nextArray h"
  "children (nodes (setChildren d cs h) a) = (if a = d then cs else children (nodes h a))"
  "name (nodes (setChildren d cs h) a) = name (nodes h a)"
  "isDir (nodes (setChildren d cs h) a) = isDir (nodes h a)"
  "content (nodes (setChildren d cs h) a) = content (nodes h a)"
  by (simp_all add: setChildren_def)

lemma setChildren_other: "a \<noteq> d \<Longrightarrow> nodes (setChildren d cs h) a = nodes h a"
  by (simp add: setChildren_def)

lemma childByName_setChildren_filter:
  "childByName (setChildren d (filter (\<lambda>c. name (nodes h c) \<noteq> nm) (children (nodes h d))) h) d nm = None"
  by (simp add: childByName_None)

lemma child_setChildren_frame:
  assumes "d \<notin> set (walk h mn ps)"
  shows "child (setChildren d cs h) mn ps = child h mn ps
         \<and> walk (setChildren d cs h) mn ps = walk h mn ps"
proof (rule child_walk_frame)
  show "\<forall>a\<in>set (walk h mn ps). children (nodes (setChildren d cs h) a) = children (nodes h a)"
    using assms by auto
  show "\<forall>a\<in>set (walk h mn ps). \<forall>c\<in>set (children (nodes h a)).
          name (nodes (setChildren d cs h) c) = name (nodes h c)"
    by simp
qed

lemma cleanElems_nonempty_elems: "e \<in> set (cleanElems p) \<Longrightarrow> e \<noteq> []"
  using cleanElems_real [of e p] by (auto simp: realElem_def)

lemma child_below_parent:
  assumes es: "cleanElems p \<noteq> []"
  shows "child h mn (cleanElems p @ qs) =
     (case child h mn (butlast (cleanElems p)) of
        None \<Rightarrow> None
      | Some d \<Rightarrow> (case childByName h d (last (cleanElems p)) of
                     None \<Rightarrow> None
                   | Some c \<Rightarrow> child h c qs))"
proof -
  let ?es = "cleanElems p"
  have ne: "\<forall>e\<in>set (butlast ?es). e \<noteq> []"
    using cleanElems_nonempty_elems by (auto dest: in_set_butlastD)
  have l: "last ?es \<noteq> []"
    using es cleanElems_nonempty_elems [of "last ?es" p] by simp
  have eq: "?es @ qs = butlast ?es @ (last ?es # qs)"
    using es by simp
  have "child h mn (?es @ qs) = child h mn (butlast ?es @ (last ?es # qs))"
    using eq by (rule arg_cong)
  also have "\<dots> = (case child h mn (butlast ?es) of None \<Rightarrow> None | Some d \<Rightarrow> child h d (last ?es # qs))"
    by (rule child_append [OF ne])
  also have "\<dots> = (case child h mn (butlast ?es) of None \<Rightarrow> None
      | Some d \<Rightarrow> (case childByName h d (last ?es) of None \<Rightarrow> None | Some c \<Rightarrow> child h c qs))"
    using l by (cases "child h mn (butlast ?es)") (simp_all add: child_Cons del: child.simps)
  finally show ?thesis .
qed

lemma Remove_detaches:
  assumes par: "parentNode h mn p = Some d"
    and es: "cleanElems p \<noteq> []"
    and tree: "d \<notin> set (walk h mn (butlast (cleanElems p)))"
  shows "child (setChildren d
            (filter (\<lambda>x. name (nodes h x) \<noteq> Base (Clean (CHR ''/'' # p))) (children (nodes h d))) h)
          mn (cleanElems p @ qs) = None"
proof -
  let ?base = "Base (Clean (CHR ''/'' # p))"
  let ?h' = "setChildren d (filter (\<lambda>x. name (nodes h x) \<noteq> ?base) (children (nodes h d))) h"
  have b: "?base = last (cleanElems p)"
    using es by (simp add: Base_Clean)
  have "child h mn (butlast (cleanElems p)) = Some d"
    using par by (simp add: parentNode_elems)
  then have "child ?h' mn (butlast (cleanElems p)) = Some d"
    using child_setChildren_frame [OF tree] by simp
  moreover have "childByName ?h' d (last (cleanElems p)) = None"
    using childByName_setChildren_filter [of d h ?base] b by simp
  ultimately show ?thesis
    by (simp add: child_below_parent [OF es])
qed

section \<open>Remove in the in-memory backend\<close>

text \<open>
  Claim C8, as stated: \<^verbatim>\<open>Remove(p)\<close> fails with the not-found sentinel as cause also when
  the parent directory of \<open>p\<close> does not exist. On the sample tree, which has no directory
  \<^verbatim>\<open>/nodir\<close>, \<^verbatim>\<open>Remove("/nodir/x")\<close> fails with the cause
  \<^verbatim>\<open>fmt.Errorf("No parent directory %s", path)\<close>, which is not the sentinel.
\<close>

theorem Remove_missing_parent_counterexample:
  "parentNode sampleHeap sampleRoot ''/nodir/x'' = None
   \<and> MemNode_Remove sampleHeap sampleRoot ''/nodir/x'' =
       (Some (PathError ''remove'' ''/nodir/x'' (Errorf ''No parent directory /nodir/x'')), sampleHeap)
   \<and> Errorf ''No parent directory /nodir/x'' \<noteq> ErrNoFile"
  by (simp add: MemNode_Remove_def path_eval heap_eval)

text \<open>
  Claim C8, amended. With \<open>path\<close> the cleaned path and \<open>base\<close> its last element:
  when the parent of \<open>path\<close> does not resolve or is not a directory, \<^verbatim>\<open>Remove(p)\<close> fails
  with the operation \<^verbatim>\<open>remove\<close>, the path \<open>path\<close> and a ``No parent directory'' cause that
  is not the sentinel, and changes nothing; when the parent is a directory without a child
  named \<open>base\<close>, it fails with the not-found sentinel as cause and changes nothing;
  otherwise it succeeds and only the parent's child list changes: the children named
  \<open>base\<close> are filtered out (exactly the one found, when the names in the list are
  distinct), and no other node is touched, so a removed directory goes with all it holds.
  When \<open>p\<close> is not the root and the walk from the root to the parent does not pass
  through the parent itself, as in every tree, afterwards neither \<open>p\<close> nor any path
  below it resolves, and \<^verbatim>\<open>Stat(p)\<close> fails with the sentinel.
\<close>

theorem Remove_outcomes:
  "(let path = Clean (CHR ''/'' # p); base = Base path in
     (parentNode h mn p = None \<or> (\<exists>d. parentNode h mn p = Some d \<and> \<not> isDir (nodes h d)) \<longrightarrow>
        MemNode_Remove h mn p =
          (Some (PathError ''remove'' path (Errorf (''No parent directory '' @ path))), h))
   \<and> (\<forall>d. parentNode h mn p = Some d \<and> isDir (nodes h d) \<longrightarrow>
        (childByName h d base = None \<longrightarrow>
           MemNode_Remove h mn p = (Some (PathError ''remove'' path ErrNoFile), h))
      \<and> (\<forall>c. childByName h d base = Some c \<longrightarrow>
           MemNode_Remove h mn p =
             (None, setChildren d (filter (\<lambda>x. name (nodes h x) \<noteq> base) (children (nodes h d))) h)
           \<and> childByName (snd (MemNode_Remove h mn p)) d base = None
           \<and> (distinct (map (\<lambda>x. name (nodes h x)) (children (nodes h d))) \<longrightarrow>
                children (nodes (snd (MemNode_Remove h mn p)) d) = remove1 c (children (nodes h d)))
           \<and> (\<forall>a. a \<noteq> d \<longrightarrow> nodes (snd (MemNode_Remove h mn p)) a = nodes h a)
           \<and> (cleanElems p \<noteq> [] \<and> d \<notin> set (walk h mn (butlast (cleanElems p))) \<longrightarrow>
                (\<forall>qs. child (snd (MemNode_Remove h mn p)) mn (cleanElems p @ qs) = None)
                \<and> MemNode_Stat (snd (MemNode_Remove h mn p)) mn p =
                    Inl (PathError ''stat'' path ErrNoFile)))))"
proof -
  let ?path = "Clean (CHR ''/'' # p)"
  let ?base = "Base ?path"
  let ?noParent = "PathError ''remove'' ?path (Errorf (''No parent directory '' @ ?path))"
  have A: "parentNode h mn p = None \<or> (\<exists>d. parentNode h mn p = Some d \<and> \<not> isDir (nodes h d)) \<Longrightarrow>
      MemNode_Remove h mn p = (Some ?noParent, h)"
    by (auto simp: Remove_unfold)
  have B: "\<And>d. parentNode h mn p = Some d \<Longrightarrow> isDir (nodes h d) \<Longrightarrow> childByName h d ?base = None \<Longrightarrow>
      MemNode_Remove h mn p = (Some (PathError ''remove'' ?path ErrNoFile), h)"
    by (simp add: Remove_unfold)
  have C: "MemNode_Remove h mn p =
             (None, setChildren d (filter (\<lambda>x. name (nodes h x) \<noteq> ?base) (children (nodes h d))) h)
           \<and> childByName (snd (MemNode_Remove h mn p)) d ?base = None
           \<and> (distinct (map (\<lambda>x. name (nodes h x)) (children (nodes h d))) \<longrightarrow>
                children (nodes (snd (MemNode_Remove h mn p)) d) = remove1 c (children (nodes h d)))
           \<and> (\<forall>a. a \<noteq> d \<longrightarrow> nodes (snd (MemNode_Remove h mn p)) a = nodes h a)
           \<and> (cleanElems p \<noteq> [] \<and> d \<notin> set (walk h mn (butlast (cleanElems p))) \<longrightarrow>
                (\<forall>qs. child (snd (MemNode_Remove h mn p)) mn (cleanElems p @ qs) = None)
                \<and> MemNode_Stat (snd (MemNode_Remove h mn p)) mn p =
                    Inl (PathError ''stat'' ?path ErrNoFile))"
    if par: "parentNode h mn p = Some d" and dir: "isDir (nodes h d)"
      and c: "childByName h d ?base = Some c" for d c
  proof -
    let ?h' = "setChildren d (filter (\<lambda>x. name (nodes h x) \<noteq> ?base) (children (nodes h d))) h"
    have r: "MemNode_Remove h mn p = (None, ?h')"
      using par dir c by (simp add: Remove_unfold)
    have n: "childByName ?h' d ?base = None"
      by (rule childByName_setChildren_filter)
    have f: "find (\<lambda>x. name (nodes h x) = ?base) (children (nodes h d)) = Some c"
      using c by (simp add: childByName_def)
    have d1: "distinct (map (\<lambda>x. name (nodes h x)) (children (nodes h d))) \<longrightarrow>
        children (nodes ?h' d) = remove1 c (children (nodes h d))"
      using filter_distinct_name [OF _ f] by simp
    have o: "\<forall>a. a \<noteq> d \<longrightarrow> nodes ?h' a = nodes h a"
      by (simp add: setChildren_other)
    have t: "(\<forall>qs. child ?h' mn (cleanElems p @ qs) = None)
        \<and> MemNode_Stat ?h' mn p = Inl (PathError ''stat'' ?path ErrNoFile)"
      if es: "cleanElems p \<noteq> []" and tree: "d \<notin> set (walk h mn (butlast (cleanElems p)))"
    proof -
      have all: "\<And>qs. child ?h' mn (cleanElems p @ qs) = None"
        using par es tree by (rule Remove_detaches)
      from all [of "[]"] have "childByPath ?h' mn ?path = None"
        by (simp add: childByPath_elems cleanElems_Clean)
      then have "MemNode_Stat ?h' mn p = Inl (PathError ''stat'' ?path ErrNoFile)"
        by (simp add: MemNode_Stat_def)
      with all show ?thesis by blast
    qed
    show ?thesis
      unfolding r snd_conv using n d1 o t by blast
  qed
  show ?thesis
    unfolding Let_def using A B C by blast
qed

lemma sample_paths:
  "Clean ''//nodir/x'' = ''/nodir/x''" "Clean ''//d/y'' = ''/d/y''" "Clean ''//d/x'' = ''/d/x''"
  "Base ''/d/y'' = ''y''" "Base ''/d/x'' = ''x''"
  "cleanElems ''/d/x'' = [''d'', ''x'']"
  by (simp_all add: path_eval cleanElems_def)

lemma sample_resolution:
  "parentNode sampleHeap sampleRoot ''/nodir/x'' = None"
  "parentNode sampleHeap sampleRoot ''/d/y'' = Some (Suc 0)"
  "parentNode sampleHeap sampleRoot ''/d/x'' = Some (Suc 0)"
  "childByName sampleHeap (Suc 0) ''y'' = None"
  "childByName sampleHeap (Suc 0) ''x'' = Some 0"
  "walk sampleHeap sampleRoot [''d''] = [3]"
  by (simp_all add: path_eval heap_eval)

theorem Remove_outcomes_witness:
  "MemNode_Remove sampleHeap sampleRoot ''/nodir/x'' =
       (Some (PathError ''remove'' ''/nodir/x'' (Errorf ''No parent directory /nodir/x'')), sampleHeap)
   \<and> MemNode_Remove sampleHeap sampleRoot ''/d/y'' =
       (Some (PathError ''remove'' ''/d/y'' ErrNoFile), sampleHeap)
   \<and> fst (MemNode_Remove sampleHeap sampleRoot ''/d/x'') = None
   \<and> children (nodes (snd (MemNode_Remove sampleHeap sampleRoot ''/d/x'')) 1) = []
   \<and> MemNode_Stat (snd (MemNode_Remove sampleHeap sampleRoot ''/d/x'')) sampleRoot ''/d/x'' =
       Inl (PathError ''stat'' ''/d/x'' ErrNoFile)"
proof -
  have d: "isDir (nodes sampleHeap (Suc 0))" "children (nodes sampleHeap (Suc 0)) = [0]"
    "name (nodes sampleHeap 0) = ''x''" "Suc 0 \<noteq> sampleRoot"
    by (simp_all add: sample_nodes sampleRoot_def)
  have a: "MemNode_Remove sampleHeap sampleRoot ''/nodir/x'' =
       (Some (PathError ''remove'' ''/nodir/x'' (Errorf ''No parent directory /nodir/x'')), sampleHeap)"
    using Remove_outcomes [of "''/nodir/x''" sampleHeap sampleRoot]
    by (simp add: Let_def sample_paths sample_resolution)
  have b: "MemNode_Remove sampleHeap sampleRoot ''/d/y'' =
       (Some (PathError ''remove'' ''/d/y'' ErrNoFile), sampleHeap)"
    using Remove_outcomes [of "''/d/y''" sampleHeap sampleRoot] d
    by (simp add: Let_def sample_paths sample_resolution)
  have c: "fst (MemNode_Remove sampleHeap sampleRoot ''/d/x'') = None
   \<and> children (nodes (snd (MemNode_Remove sampleHeap sampleRoot ''/d/x'')) 1) = []
   \<and> MemNode_Stat (snd (MemNode_Remove sampleHeap sampleRoot ''/d/x'')) sampleRoot ''/d/x'' =
       Inl (PathError ''stat'' ''/d/x'' ErrNoFile)"
    using Remove_outcomes [of "''/d/x''" sampleHeap sampleRoot] d
    by (auto simp: Let_def sample_paths sample_resolution)
  from a b c show ?thesis by simp
qed

section \<open>Unique names of children\<close>

lemma sample_alloc: "nextNode sampleHeap = 4" "nextArray sampleHeap = 1"
  by (simp_all add: heap_eval)

text \<open>
  Claim C4. Every operation is to preserve the invariant that the children of a directory
  have pairwise distinct names. \<^verbatim>\<open>Create\<close> removes an existing child of the same name
  before a new one is added; \<^verbatim>\<open>Mkdir\<close> appends the new directory without looking for one.
  On the sample tree, which satisfies the invariant and has the directory \<^verbatim>\<open>/d\<close>,
  \<^verbatim>\<open>Mkdir("/d")\<close> succeeds and leaves the root with two children named \<^verbatim>\<open>d\<close>, where
  \<^verbatim>\<open>Create("/d")\<close> followed by \<^verbatim>\<open>Close\<close> leaves it with one.
\<close>

theorem Mkdir_existing_duplicates:
  "uniqueNames sampleHeap
   \<and> childByPath sampleHeap sampleRoot ''/d'' = Some 1
   \<and> fst (MemNode_Mkdir sampleHeap sampleRoot ''/d'') = None
   \<and> map (\<lambda>c. name (nodes (snd (MemNode_Mkdir sampleHeap sampleRoot ''/d'')) c))
        (children (nodes (snd (MemNode_Mkdir sampleHeap sampleRoot ''/d'')) sampleRoot))
       = [''d'', ''top'', ''d'']
   \<and> \<not> uniqueNames (snd (MemNode_Mkdir sampleHeap sampleRoot ''/d''))
   \<and> map (\<lambda>c. name (nodes (createWriteClose sampleHeap sampleRoot ''/d'' ''abc'') c))
        (children (nodes (createWriteClose sampleHeap sampleRoot ''/d'' ''abc'') sampleRoot))
       = [''top'', ''d'']
   \<and> uniqueNames (createWriteClose sampleHeap sampleRoot ''/d'' ''abc'')"
proof -
  let ?g = "createWriteClose sampleHeap sampleRoot ''/d'' ''abc''"
  have g: "children (nodes ?g sampleRoot) = [2, 4]" "nextNode ?g = 5"
    "map (\<lambda>c. name (nodes ?g c)) [2, 4] = [''top'', ''d'']"
    "children (nodes ?g 0) = []" "children (nodes ?g (Suc 0)) = [0]" "children (nodes ?g 2) = []"
    "children (nodes ?g 4) = []" "children (nodes ?g 3) = [2, 4]"
    by (simp_all add: createWriteClose_def MemNode_Create_def MemNode_Remove_def memFile_Write_def
        memFile_Close_def path_eval heap_eval eval_nat_numeral)
  have "[0..<nextNode ?g] = [0, 1, 2, 3, 4]"
    by (simp add: g upt_rec)
  then have ug: "uniqueNames ?g"
    using g by (simp add: uniqueNames_def)
  have "[0..<nextNode sampleHeap] = [0, 1, 2, 3]"
    by (simp add: sample_alloc upt_rec)
  then have u: "uniqueNames sampleHeap"
    by (simp add: uniqueNames_def sample_nodes)
  have c: "childByPath sampleHeap sampleRoot ''/d'' = Some 1"
    by (simp add: path_eval heap_eval)
  let ?h = "snd (MemNode_Mkdir sampleHeap sampleRoot ''/d'')"
  have e: "fst (MemNode_Mkdir sampleHeap sampleRoot ''/d'') = None"
    by (simp add: MemNode_Mkdir_def path_eval heap_eval)
  have ch: "children (nodes ?h sampleRoot) = [1, 2, 4]"
    by (simp add: MemNode_Mkdir_def path_eval heap_eval eval_nat_numeral)
  have nm: "map (\<lambda>c. name (nodes ?h c)) [1, 2, 4] = [''d'', ''top'', ''d'']"
    by (simp add: MemNode_Mkdir_def path_eval heap_eval eval_nat_numeral)
  have n: "sampleRoot < nextNode ?h"
    by (simp add: MemNode_Mkdir_def path_eval heap_eval)
  have nd: "\<not> distinct (map (\<lambda>c. name (nodes ?h c)) (children (nodes ?h sampleRoot)))"
    unfolding ch nm by simp
  have "\<not> uniqueNames ?h"
  proof
    assume "uniqueNames ?h"
    then have "distinct (map (\<lambda>c. name (nodes ?h c)) (children (nodes ?h sampleRoot)))"
      using n by (simp add: uniqueNames_def list_all_iff)
    with nd show False by simp
  qed
  then show ?thesis
    using u c e ch nm g(1,3) ug by simp
qed

section \<open>Readers of the in-memory backend\<close>

lemma arraysKept_refl: "arraysKept h h"
  by (simp add: arraysKept_def)

lemma arraysKept_trans: "arraysKept h h1 \<Longrightarrow> arraysKept h1 h2 \<Longrightarrow> arraysKept h h2"
  by (auto simp: arraysKept_def)

lemma arraysKept_same: "arrays h' = arrays h \<Longrightarrow> nextArray h' = nextArray h \<Longrightarrow> arraysKept h h'"
  by (simp add: arraysKept_def)

lemma Remove_arraysKept: "arraysKept h (snd (MemNode_Remove h mn p))"
  by (cases "parentNode h mn p") (auto simp: Remove_unfold arraysKept_def)

lemma appendChild_simps [simp]:
  "arrays (appendChild d c h) = arrays h"
  "nextArray (appendChild d c h) = nextArray h"
  "nextNode (appendChild d c h) = nextNode h"
  by (simp_all add: appendChild_def)

lemma newNode_simps [simp]:
  "arrays (snd (newNode n h)) = arrays h"
  "nextArray (snd (newNode n h)) = nextArray h"
  "nextNode (snd (newNode n h)) = Suc (nextNode h)"
  "fst (newNode n h) = nextNode h"
  by (simp_all add: newNode_def)

lemma Mkdir_arraysKept: "arraysKept h (snd (MemNode_Mkdir h mn p))"
  by (cases "parentNode h mn p")
     (auto simp: MemNode_Mkdir_def DirNode_def arraysKept_def Let_def split_beta)

lemma Move_arraysKept: "arraysKept h (snd (MemNode_Move h mn p q))"
  unfolding MemNode_Move_def Let_def
  by (auto simp: arraysKept_def split: option.splits)

lemma Close_arraysKept: "arraysKept h (snd (snd (memFile_Close h mf)))"
  by (auto simp: memFile_Close_def newArray_def arraysKept_def Let_def split_beta)

lemma Create_heap:
  "snd (MemNode_Create h mn p) = h \<or> snd (MemNode_Create h mn p) = snd (MemNode_Remove h mn (Clean (CHR ''/'' # p)))"
  unfolding MemNode_Create_def Let_def
  by (auto split: option.splits prod.splits error.splits)

lemma Create_arraysKept: "arraysKept h (snd (MemNode_Create h mn p))"
  using Create_heap [of h mn p] Remove_arraysKept [of h mn "Clean (CHR ''/'' # p)"]
  by (auto simp: arraysKept_refl)

lemma Copy_heap:
  "snd (MemNode_Copy h mn p source) = snd (MemNode_Create h mn p)
   \<or> (\<exists>mf. snd (MemNode_Copy h mn p source) = snd (snd (memFile_Close (snd (MemNode_Create h mn p)) mf)))"
proof (cases "MemNode_Create h mn p")
  case (Pair w h1)
  show ?thesis
  proof (cases w)
    case (Inl e)
    then show ?thesis using Pair by (simp add: MemNode_Copy_def)
  next
    case (Inr dest)
    show ?thesis
    proof (cases source)
      case (Inl e)
      then show ?thesis using Pair Inr by (simp add: MemNode_Copy_def)
    next
      case (Inr bs)
      obtain n e dest' where w: "memFile_Write dest bs = ((n, e), dest')"
        by (metis prod.exhaust)
      show ?thesis
      proof (cases e)
        case None
        obtain e2 f2 h2 where c: "memFile_Close h1 dest' = (e2, f2, h2)"
          by (metis prod.exhaust)
        have "snd (MemNode_Copy h mn p source) = h2"
          using Pair \<open>w = Inr dest\<close> Inr w None c by (simp add: MemNode_Copy_def)
        moreover have "snd (snd (memFile_Close (snd (MemNode_Create h mn p)) dest')) = h2"
          using Pair c by simp
        ultimately show ?thesis by metis
      next
        case (Some err)
        then show ?thesis using Pair \<open>w = Inr dest\<close> Inr w by (simp add: MemNode_Copy_def)
      qed
    qed
  qed
qed

lemma Copy_arraysKept: "arraysKept h (snd (MemNode_Copy h mn p source))"
proof -
  have c: "arraysKept h (snd (MemNode_Create h mn p))"
    by (rule Create_arraysKept)
  from Copy_heap [of h mn p source] show ?thesis
  proof
    assume "snd (MemNode_Copy h mn p source) = snd (MemNode_Create h mn p)"
    then show ?thesis using c by simp
  next
    assume "\<exists>mf. snd (MemNode_Copy h mn p source) =
        snd (snd (memFile_Close (snd (MemNode_Create h mn p)) mf))"
    then obtain mf where "snd (MemNode_Copy h mn p source) =
        snd (snd (memFile_Close (snd (MemNode_Create h mn p)) mf))"
      by blast
    then show ?thesis
      using arraysKept_trans [OF c Close_arraysKept [of "snd (MemNode_Create h mn p)" mf]] by simp
  qed
qed

lemma backendStep_arraysKept: "backendStep mn h h' \<Longrightarrow> arraysKept h h'"
  by (induction rule: backendStep.induct)
     (simp_all add: Remove_arraysKept Create_arraysKept Close_arraysKept Copy_arraysKept
        Move_arraysKept Mkdir_arraysKept)

lemma backendSteps_arraysKept: "(backendStep mn)\<^sup>*\<^sup>* h h' \<Longrightarrow> arraysKept h h'"
  by (induction rule: rtranclp_induct)
     (auto intro: arraysKept_refl arraysKept_trans backendStep_arraysKept)

lemma ReadAll_arraysKept:
  "arraysKept h h' \<Longrightarrow> sliceOK h (rd_s r) \<Longrightarrow> ReadAll h' r = ReadAll h r"
  by (cases "rd_s r") (auto simp: ReadAll_def bytesOf_def arraysKept_def sliceOK_def)

text \<open>
  Claim C5, as stated: the reader that \<^verbatim>\<open>Open\<close> returns reads a private copy of the
  file's bytes, so that no later in-place change of the node's content shows through it.
  On the sample tree the reader of \<^verbatim>\<open>/d/x\<close> holds the node's own slice (array 0,
  \<^verbatim>\<open>hi\<close>); after the in-place store of \<^verbatim>\<open>o\<close> at index 1 of that array the reader
  yields \<^verbatim>\<open>ho\<close>.
\<close>

theorem Open_shares_slice_counterexample:
  "MemNode_Open sampleHeap sampleRoot ''/d/x'' = Inr \<lparr>rd_s = Some 0, rd_i = 0\<rparr>
   \<and> content (nodes sampleHeap 0) = Some 0
   \<and> ReadAll sampleHeap \<lparr>rd_s = Some 0, rd_i = 0\<rparr> = ''hi''
   \<and> ReadAll (storeByte 0 1 (CHR ''o'') sampleHeap) \<lparr>rd_s = Some 0, rd_i = 0\<rparr> = ''ho''"
  by (simp add: MemNode_Open_def Content_def ReadAll_def bytesOf_def storeByte_def path_eval heap_eval)

text \<open>
  Claim C5, amended. The reader that \<^verbatim>\<open>Open(p)\<close> returns is positioned at 0 over the byte
  slice of the node that \<open>p\<close> resolves to, the slice itself and not a copy. No operation of
  the backend stores into an allocated array (\<^verbatim>\<open>Close\<close> puts the written bytes into a
  fresh array and a new node), so after any sequence of backend operations and closes of
  handles an open reader over an allocated slice yields the bytes it yielded at open time.
\<close>

theorem Open_reader_over_node_slice:
  assumes "MemNode_Open h mn p = Inr r"
  shows "(\<exists>c. childByPath h mn p = Some c \<and> rd_s r = content (nodes h c) \<and> rd_i r = 0)
     \<and> (\<forall>h'. sliceOK h (rd_s r) \<and> (backendStep mn)\<^sup>*\<^sup>* h h' \<longrightarrow> ReadAll h' r = ReadAll h r)"
proof
  show "\<exists>c. childByPath h mn p = Some c \<and> rd_s r = content (nodes h c) \<and> rd_i r = 0"
    using assms
    by (cases "childByPath h mn p") (auto simp: MemNode_Open_def childByPath_Clean Content_def)
  show "\<forall>h'. sliceOK h (rd_s r) \<and> (backendStep mn)\<^sup>*\<^sup>* h h' \<longrightarrow> ReadAll h' r = ReadAll h r"
    using backendSteps_arraysKept ReadAll_arraysKept by blast
qed

theorem Open_reader_over_node_slice_witness:
  "MemNode_Open sampleHeap sampleRoot ''/d/x'' = Inr \<lparr>rd_s = Some 0, rd_i = 0\<rparr>
   \<and> ReadAll sampleHeap \<lparr>rd_s = Some 0, rd_i = 0\<rparr> = ''hi''
   \<and> ReadAll (snd (MemNode_Remove (snd (MemNode_Copy sampleHeap sampleRoot ''/d/x'' (Inr ''new'')))
                 sampleRoot ''/top''))
        \<lparr>rd_s = Some 0, rd_i = 0\<rparr> = ''hi''"
proof -
  let ?r = "\<lparr>rd_s = Some 0, rd_i = 0\<rparr>"
  let ?h1 = "snd (MemNode_Copy sampleHeap sampleRoot ''/d/x'' (Inr ''new''))"
  let ?h2 = "snd (MemNode_Remove ?h1 sampleRoot ''/top'')"
  have o: "MemNode_Open sampleHeap sampleRoot ''/d/x'' = Inr ?r"
    by (simp add: MemNode_Open_def Content_def path_eval heap_eval)
  have r0: "ReadAll sampleHeap ?r = ''hi''"
    by (simp add: ReadAll_def bytesOf_def heap_eval)
  have ok: "sliceOK sampleHeap (rd_s ?r)"
    by (simp add: sliceOK_def heap_eval)
  have "backendStep sampleRoot sampleHeap ?h1"
    by (rule stepCopy)
  moreover have "backendStep sampleRoot ?h1 ?h2"
    by (rule stepRemove)
  ultimately have "(backendStep sampleRoot)\<^sup>*\<^sup>* sampleHeap ?h2"
    by (meson r_into_rtranclp rtranclp.rtrancl_into_rtrancl)
  then have "ReadAll ?h2 ?r = ReadAll sampleHeap ?r"
    using Open_reader_over_node_slice [OF o] ok by blast
  then show ?thesis
    using o r0 by simp
qed

section \<open>Create and Close in the in-memory backend\<close>

lemma setChildren_same: "setChildren d (children (nodes h d)) h = h"
  by (simp add: setChildren_def)

lemma filter_all_id: "\<forall>x\<in>set xs. P x \<Longrightarrow> filter P xs = xs"
  by (simp add: filter_id_conv)

lemma find_append_last: "\<forall>x\<in>set xs. \<not> P x \<Longrightarrow> P y \<Longrightarrow> find P (xs @ [y]) = Some y"
  by (induction xs) auto

lemma Create_result:
  assumes par: "child h mn (butlast (cleanElems p)) = Some d" and dir: "isDir (nodes h d)"
  shows "MemNode_Create h mn p =
     (Inr \<lparr>mf_closed = False, mf_content = [], mf_dir = d, mf_path = Base (Clean (CHR ''/'' # p))\<rparr>,
      setChildren d (filter (\<lambda>c. name (nodes h c) \<noteq> Base (Clean (CHR ''/'' # p))) (children (nodes h d))) h)"
proof -
  let ?path = "Clean (CHR ''/'' # p)"
  let ?base = "Base ?path"
  have cd: "childByPath h mn (Dir ?path) = Some d"
    using par by (simp add: childByPath_Dir)
  have pn: "parentNode h mn ?path = Some d"
    using par by (simp add: parentNode_elems cleanElems_Clean)
  show ?thesis
  proof (cases "childByName h d ?base")
    case None
    then have r: "MemNode_Remove h mn ?path = (Some (PathError ''remove'' ?path ErrNoFile), h)"
      using pn dir by (simp add: Remove_unfold Clean_idem)
    have "\<forall>c\<in>set (children (nodes h d)). name (nodes h c) \<noteq> ?base"
      using None by (simp add: childByName_None)
    then have "filter (\<lambda>c. name (nodes h c) \<noteq> ?base) (children (nodes h d)) = children (nodes h d)"
      by (rule filter_all_id)
    then have "setChildren d (filter (\<lambda>c. name (nodes h c) \<noteq> ?base) (children (nodes h d))) h = h"
      by (simp add: setChildren_same)
    then show ?thesis
      using cd dir r by (simp add: MemNode_Create_def Let_def)
  next
    case (Some c)
    then have r: "MemNode_Remove h mn ?path =
        (None, setChildren d (filter (\<lambda>c. name (nodes h c) \<noteq> ?base) (children (nodes h d))) h)"
      using pn dir by (simp add: Remove_unfold Clean_idem)
    show ?thesis
      using cd dir r by (simp add: MemNode_Create_def Let_def)
  qed
qed

lemma Close_result:
  "\<not> mf_closed mf \<Longrightarrow>
   memFile_Close h mf =
     (None, mf\<lparr>mf_closed := True\<rparr>,
      appendChild (mf_dir mf) (nextNode h)
        (snd (newNode \<lparr>name = Base (mf_path mf), isDir = False, content = Some (nextArray h),
                        children = []\<rparr> (snd (newArray (mf_content mf) h)))))"
  by (simp add: memFile_Close_def newArray_def newNode_def Let_def)

lemma fileAdded_simps:
  "nextNode (fileAdded d nm bs h) = Suc (nextNode h)"
  "nextArray (fileAdded d nm bs h) = Suc (nextArray h)"
  "arrays (fileAdded d nm bs h) = (arrays h)(nextArray h := bs)"
  "name (nodes (fileAdded d nm bs h) x) = (if x = nextNode h then nm else name (nodes h x))"
  "isDir (nodes (fileAdded d nm bs h) x) = (if x = nextNode h then False else isDir (nodes h x))"
  "content (nodes (fileAdded d nm bs h) x) =
     (if x = nextNode h then Some (nextArray h) else content (nodes h x))"
  by (simp_all add: fileAdded_def appendChild_def newNode_def newArray_def)

lemma fileAdded_children:
  "d \<noteq> nextNode h \<Longrightarrow>
   children (nodes (fileAdded d nm bs h) x) =
     (if x = d then children (nodes h d) @ [nextNode h]
      else if x = nextNode h then [] else children (nodes h x))"
  by (simp add: fileAdded_def appendChild_def newNode_def newArray_def)

lemma createWriteClose_result:
  assumes par: "child h mn (butlast (cleanElems p)) = Some d" and dir: "isDir (nodes h d)"
    and es: "cleanElems p \<noteq> []"
  shows "createWriteClose h mn p bs =
     fileAdded d (last (cleanElems p)) bs
       (setChildren d (filter (\<lambda>c. name (nodes h c) \<noteq> last (cleanElems p)) (children (nodes h d))) h)"
proof -
  have b: "Base (Clean (CHR ''/'' # p)) = last (cleanElems p)"
    using es by (simp add: Base_Clean)
  have "realElem (last (cleanElems p))"
    using es by (intro cleanElems_real [of _ p]) simp
  then have bb: "Base (last (cleanElems p)) = last (cleanElems p)"
    by (rule Base_real)
  show ?thesis
    unfolding createWriteClose_def Create_result [OF par dir] b
    by (simp add: memFile_Write_def Close_result fileAdded_def bb)
qed

lemma parentAt_after_write:
  fixes bs :: "char list"
  assumes P: "parentAt h mn p d"
  defines "nm \<equiv> last (cleanElems p)"
  defines "h1 \<equiv> setChildren d (filter (\<lambda>c. name (nodes h c) \<noteq> nm) (children (nodes h d))) h"
  defines "h2 \<equiv> fileAdded d nm bs h1"
  shows "parentAt h2 mn p d \<and> childByPath h2 mn p = Some (nextNode h)"
proof -
  let ?ps = "butlast (cleanElems p)"
  let ?n = "nextNode h"
  have ok: "heapOK h mn" and es: "cleanElems p \<noteq> []" and par: "child h mn ?ps = Some d"
    and dir: "isDir (nodes h d)" and tree: "d \<notin> set (walk h mn ?ps)"
    using P by (simp_all add: parentAt_def)
  have dn: "d < ?n"
    using ok par by (rule child_allocated)
  have n1: "nextNode h1 = ?n"
    by (simp add: h1_def)
  have dn1: "d \<noteq> nextNode h1"
    using dn n1 by simp
  have kids: "\<And>x. children (nodes h2 x) =
      (if x = d then filter (\<lambda>c. name (nodes h c) \<noteq> nm) (children (nodes h d)) @ [?n]
       else if x = ?n then [] else children (nodes h x))"
    unfolding h2_def using dn1 by (simp add: fileAdded_children n1) (simp add: h1_def)
  have names: "\<And>x. name (nodes h2 x) = (if x = ?n then nm else name (nodes h x))"
    unfolding h2_def by (simp add: fileAdded_simps n1) (simp add: h1_def)
  have alloc: "\<And>x c. x < ?n \<Longrightarrow> c \<in> set (children (nodes h x)) \<Longrightarrow> c < ?n"
    using ok by (simp add: heapOK_def)
  have frame: "child h2 mn ?ps = child h mn ?ps \<and> walk h2 mn ?ps = walk h mn ?ps"
  proof (rule child_walk_frame)
    show "\<forall>a\<in>set (walk h mn ?ps). children (nodes h2 a) = children (nodes h a)"
    proof
      fix a assume a: "a \<in> set (walk h mn ?ps)"
      then have "a \<noteq> d" using tree by auto
      moreover have "a < ?n" using ok a by (rule walk_allocated)
      ultimately show "children (nodes h2 a) = children (nodes h a)"
        by (simp add: kids)
    qed
    show "\<forall>a\<in>set (walk h mn ?ps). \<forall>c\<in>set (children (nodes h a)). name (nodes h2 c) = name (nodes h c)"
    proof (intro ballI)
      fix a c assume a: "a \<in> set (walk h mn ?ps)" and c: "c \<in> set (children (nodes h a))"
      have "a < ?n" using ok a by (rule walk_allocated)
      then have "c < ?n" using c by (rule alloc)
      then show "name (nodes h2 c) = name (nodes h c)"
        by (simp add: names)
    qed
  qed
  have par2: "child h2 mn ?ps = Some d"
    using frame par by simp
  have tree2: "d \<notin> set (walk h2 mn ?ps)"
    using frame tree by simp
  have dir2: "isDir (nodes h2 d)"
    unfolding h2_def using dir dn by (simp add: fileAdded_simps n1) (simp add: h1_def)
  have n2: "nextNode h2 = Suc ?n"
    unfolding h2_def by (simp add: fileAdded_simps n1)
  have ok2: "heapOK h2 mn"
    unfolding heapOK_def n2
  proof (intro conjI allI impI ballI)
    show "mn < Suc ?n" using ok by (simp add: heapOK_def)
  next
    fix a c assume a: "a < Suc ?n" and c: "c \<in> set (children (nodes h2 a))"
    show "c < Suc ?n"
    proof (cases "a = d")
      case True
      then have "c = ?n \<or> c \<in> set (children (nodes h d))"
        using c by (auto simp: kids)
      then show ?thesis using alloc [OF dn, of c] by (auto simp: less_Suc_eq)
    next
      case False
      then have "a \<noteq> ?n" "c \<in> set (children (nodes h a))"
        using c by (auto simp: kids split: if_splits)
      then show ?thesis using a alloc [of a c] by (simp add: less_Suc_eq)
    qed
  qed
  have "\<forall>c\<in>set (filter (\<lambda>c. name (nodes h c) \<noteq> nm) (children (nodes h d))). \<not> name (nodes h2 c) = nm"
  proof
    fix c assume c: "c \<in> set (filter (\<lambda>c. name (nodes h c) \<noteq> nm) (children (nodes h d)))"
    then have "c < ?n" using alloc [OF dn] by simp
    then show "\<not> name (nodes h2 c) = nm" using c by (simp add: names)
  qed
  then have "find (\<lambda>c. name (nodes h2 c) = nm)
      (filter (\<lambda>c. name (nodes h c) \<noteq> nm) (children (nodes h d)) @ [?n]) = Some ?n"
    by (rule find_append_last) (simp add: names)
  then have cn: "childByName h2 d nm = Some ?n"
    by (simp add: childByName_def kids)
  have "child h2 mn (cleanElems p @ []) = Some ?n"
    unfolding child_below_parent [OF es] using par2 cn by (simp add: nm_def)
  then have "childByPath h2 mn p = Some ?n"
    by (simp add: childByPath_elems)
  then show ?thesis
    using ok2 es par2 dir2 tree2 by (simp add: parentAt_def)
qed

lemma parentAt_parts:
  assumes "parentAt h mn p d"
  shows "heapOK h mn" "cleanElems p \<noteq> []" "child h mn (butlast (cleanElems p)) = Some d"
    "isDir (nodes h d)" "d \<notin> set (walk h mn (butlast (cleanElems p)))" "d < nextNode h"
proof -
  show ok: "heapOK h mn" and "cleanElems p \<noteq> []"
    and par: "child h mn (butlast (cleanElems p)) = Some d"
    and "isDir (nodes h d)" and "d \<notin> set (walk h mn (butlast (cleanElems p)))"
    using assms by (simp_all add: parentAt_def)
  show "d < nextNode h"
    using ok par by (rule child_allocated)
qed


lemma Create_at_parent:
  assumes P: "parentAt h mn p d"
  shows "MemNode_Create h mn p =
     (Inr \<lparr>mf_closed = False, mf_content = [], mf_dir = d, mf_path = last (cleanElems p)\<rparr>,
      setChildren d (filter (\<lambda>c. name (nodes h c) \<noteq> last (cleanElems p)) (children (nodes h d))) h)"
  using Create_result [OF parentAt_parts(3) [OF P] parentAt_parts(4) [OF P]] parentAt_parts(2) [OF P]
  by (simp add: Base_Clean)


lemma Create_hides_path:
  assumes P: "parentAt h mn p d"
  shows "childByPath (snd (MemNode_Create h mn p)) mn p = None"
proof -
  have pn: "parentNode h mn p = Some d"
    using parentAt_parts(3) [OF P] by (simp add: parentNode_elems)
  have "child (setChildren d
            (filter (\<lambda>x. name (nodes h x) \<noteq> Base (Clean (CHR ''/'' # p))) (children (nodes h d))) h)
          mn (cleanElems p @ []) = None"
    using pn parentAt_parts(2) [OF P] parentAt_parts(5) [OF P] by (rule Remove_detaches)
  then show ?thesis
    using parentAt_parts(2) [OF P]
    by (simp add: Create_at_parent [OF P] childByPath_elems Base_Clean)
qed


lemma write_then_open:
  assumes P: "parentAt h mn p d"
  shows "children (nodes (createWriteClose h mn p bs) d) =
           children (nodes (snd (MemNode_Create h mn p)) d) @ [nextNode h]
       \<and> childByPath (createWriteClose h mn p bs) mn p = Some (nextNode h)
       \<and> MemNode_Open (createWriteClose h mn p bs) mn p = Inr \<lparr>rd_s = Some (nextArray h), rd_i = 0\<rparr>
       \<and> ReadAll (createWriteClose h mn p bs) \<lparr>rd_s = Some (nextArray h), rd_i = 0\<rparr> = bs
       \<and> parentAt (createWriteClose h mn p bs) mn p d"
proof -
  let ?nm = "last (cleanElems p)"
  let ?h1 = "setChildren d (filter (\<lambda>c. name (nodes h c) \<noteq> ?nm) (children (nodes h d))) h"
  let ?h2 = "fileAdded d ?nm bs ?h1"
  have w: "createWriteClose h mn p bs = ?h2"
    using parentAt_parts(3) [OF P] parentAt_parts(4) [OF P] parentAt_parts(2) [OF P]
    by (rule createWriteClose_result)
  have c: "snd (MemNode_Create h mn p) = ?h1"
    by (simp add: Create_at_parent [OF P])
  have dn: "d \<noteq> nextNode ?h1"
    using parentAt_parts(6) [OF P] by simp
  have a: "parentAt ?h2 mn p d \<and> childByPath ?h2 mn p = Some (nextNode h)"
    using P by (rule parentAt_after_write)
  have k: "children (nodes ?h2 d) = children (nodes ?h1 d) @ [nextNode h]"
    using dn by (simp add: fileAdded_children)
  have o: "MemNode_Open ?h2 mn p = Inr \<lparr>rd_s = Some (nextArray h), rd_i = 0\<rparr>"
    using a by (simp add: MemNode_Open_def childByPath_Clean Content_def fileAdded_simps)
  have r: "ReadAll ?h2 \<lparr>rd_s = Some (nextArray h), rd_i = 0\<rparr> = bs"
    by (simp add: ReadAll_def bytesOf_def fileAdded_simps)
  show ?thesis
    unfolding w c using a k o r by simp
qed


lemma write_children:
  "parentAt h mn p d \<Longrightarrow>
   children (nodes (createWriteClose h mn p bs) d) =
     children (nodes (snd (MemNode_Create h mn p)) d) @ [nextNode h]"
  by (rule write_then_open [THEN conjunct1])

lemma write_resolves:
  "parentAt h mn p d \<Longrightarrow> childByPath (createWriteClose h mn p bs) mn p = Some (nextNode h)"
  by (rule write_then_open [THEN conjunct2, THEN conjunct1])

lemma write_Open:
  "parentAt h mn p d \<Longrightarrow>
   MemNode_Open (createWriteClose h mn p bs) mn p = Inr \<lparr>rd_s = Some (nextArray h), rd_i = 0\<rparr>"
  by (rule write_then_open [THEN conjunct2, THEN conjunct2, THEN conjunct1])

lemma write_ReadAll:
  "parentAt h mn p d \<Longrightarrow>
   ReadAll (createWriteClose h mn p bs) \<lparr>rd_s = Some (nextArray h), rd_i = 0\<rparr> = bs"
  by (rule write_then_open [THEN conjunct2, THEN conjunct2, THEN conjunct2, THEN conjunct1])

lemma write_parentAt:
  "parentAt h mn p d \<Longrightarrow> parentAt (createWriteClose h mn p bs) mn p d"
  by (rule write_then_open [THEN conjunct2, THEN conjunct2, THEN conjunct2, THEN conjunct2])

lemma write_twice:
  assumes P: "parentAt h mn p d"
  shows "\<exists>r. MemNode_Open (createWriteClose (createWriteClose h mn p c1) mn p c2) mn p = Inr r
          \<and> ReadAll (createWriteClose (createWriteClose h mn p c1) mn p c2) r = c2"
proof -
  have P2: "parentAt (createWriteClose h mn p c1) mn p d"
    using P by (rule write_parentAt)
  show ?thesis
    using write_Open [OF P2, of c2] write_ReadAll [OF P2, of c2] by (intro exI conjI)
qed

text \<open>
  Claim C6, as stated: between \<^verbatim>\<open>Create(p)\<close> and \<^verbatim>\<open>Close\<close> the entry of the tree at \<open>p\<close>
  is what it was before the call, an existing child of the same name being removed only
  on \<^verbatim>\<open>Close\<close>. \<^verbatim>\<open>Create\<close> itself calls \<^verbatim>\<open>Remove\<close> (``Remove any existing file with the
  same name''): on the sample tree \<^verbatim>\<open>/d/x\<close> resolves to node 0 before \<^verbatim>\<open>Create("/d/x")\<close>
  and to nothing after it, with the handle still open.
\<close>

theorem Create_removes_at_once_counterexample:
  "childByPath sampleHeap sampleRoot ''/d/x'' = Some 0
   \<and> fst (MemNode_Create sampleHeap sampleRoot ''/d/x'') =
       Inr \<lparr>mf_closed = False, mf_content = [], mf_dir = 1, mf_path = ''x''\<rparr>
   \<and> childByPath (snd (MemNode_Create sampleHeap sampleRoot ''/d/x'')) sampleRoot ''/d/x'' = None"
  by (simp add: MemNode_Create_def MemNode_Remove_def path_eval heap_eval)

text \<open>
  Claim C6, amended. For every path \<open>p\<close> other than the root whose parent directory
  exists in a well-formed tree: \<^verbatim>\<open>Create(p)\<close> returns an open, empty handle on the parent
  and at once filters the children named like the last element of \<open>p\<close> out of the parent's
  child list, so that until \<^verbatim>\<open>Close\<close> the path \<open>p\<close> resolves to nothing (neither the handle
  nor a former file is visible); \<^verbatim>\<open>Close\<close>, after writing \<open>bs\<close>, appends one new file node
  to the parent's children, to which \<open>p\<close> then resolves and whose reader yields exactly
  \<open>bs\<close>; consequently, after writing \<open>c1\<close> and then, through a second \<^verbatim>\<open>Create\<close> and
  \<^verbatim>\<open>Close\<close>, \<open>c2\<close> to the same path, \<^verbatim>\<open>Open\<close> yields exactly \<open>c2\<close>.
\<close>

theorem Create_visible_on_Close:
  assumes P: "parentAt h mn p d"
  shows "MemNode_Create h mn p =
       (Inr \<lparr>mf_closed = False, mf_content = [], mf_dir = d, mf_path = last (cleanElems p)\<rparr>,
        setChildren d (filter (\<lambda>c. name (nodes h c) \<noteq> last (cleanElems p)) (children (nodes h d))) h)
    \<and> childByPath (snd (MemNode_Create h mn p)) mn p = None
    \<and> (\<forall>bs. children (nodes (createWriteClose h mn p bs) d) =
                children (nodes (snd (MemNode_Create h mn p)) d) @ [nextNode h]
          \<and> childByPath (createWriteClose h mn p bs) mn p = Some (nextNode h)
          \<and> MemNode_Open (createWriteClose h mn p bs) mn p =
              Inr \<lparr>rd_s = Some (nextArray h), rd_i = 0\<rparr>
          \<and> ReadAll (createWriteClose h mn p bs) \<lparr>rd_s = Some (nextArray h), rd_i = 0\<rparr> = bs)
    \<and> (\<forall>c1 c2. \<exists>r. MemNode_Open (createWriteClose (createWriteClose h mn p c1) mn p c2) mn p = Inr r
          \<and> ReadAll (createWriteClose (createWriteClose h mn p c1) mn p c2) r = c2)"
proof (intro conjI allI)
  show "MemNode_Create h mn p =
       (Inr \<lparr>mf_closed = False, mf_content = [], mf_dir = d, mf_path = last (cleanElems p)\<rparr>,
        setChildren d (filter (\<lambda>c. name (nodes h c) \<noteq> last (cleanElems p)) (children (nodes h d))) h)"
    using P by (rule Create_at_parent)
  show "childByPath (snd (MemNode_Create h mn p)) mn p = None"
    using P by (rule Create_hides_path)
  show "children (nodes (createWriteClose h mn p bs) d) =
                children (nodes (snd (MemNode_Create h mn p)) d) @ [nextNode h]" for bs
    using P by (rule write_children)
  show "childByPath (createWriteClose h mn p bs) mn p = Some (nextNode h)" for bs
    using P by (rule write_resolves)
  show "MemNode_Open (createWriteClose h mn p bs) mn p = Inr \<lparr>rd_s = Some (nextArray h), rd_i = 0\<rparr>" for bs
    using P by (rule write_Open)
  show "ReadAll (createWriteClose h mn p bs) \<lparr>rd_s = Some (nextArray h), rd_i = 0\<rparr> = bs" for bs
    using P by (rule write_ReadAll)
  show "\<exists>r. MemNode_Open (createWriteClose (createWriteClose h mn p c1) mn p c2) mn p = Inr r
          \<and> ReadAll (createWriteClose (createWriteClose h mn p c1) mn p c2) r = c2" for c1 c2
    using P by (rule write_twice)
qed

lemma sample_heapOK: "heapOK sampleHeap sampleRoot"
  by (simp add: heapOK_def sample_alloc sampleRoot_def eval_nat_numeral All_less_Suc)
     (simp add: heap_eval)

lemma sample_parentAt_root: "parentAt sampleHeap sampleRoot ''root2.txt'' sampleRoot"
proof -
  have "cleanElems ''root2.txt'' = [''root2.txt'']"
    by (simp add: cleanElems_def cleanStep_def)
  moreover have "isDir (nodes sampleHeap sampleRoot)"
    by (simp add: sampleRoot_def sample_nodes)
  ultimately show ?thesis
    using sample_heapOK by (simp add: parentAt_def)
qed

lemma sample_parentAt_d: "parentAt sampleHeap sampleRoot ''/d/x'' (Suc 0)"
proof -
  have "cleanElems ''/d/x'' = [''d'', ''x'']"
    by (simp add: cleanElems_def cleanStep_def)
  moreover have "isDir (nodes sampleHeap (Suc 0))"
    by (simp add: sample_nodes)
  moreover have "child sampleHeap sampleRoot [''d''] = Some (Suc 0)"
    by (simp add: heap_eval)
  moreover have "walk sampleHeap sampleRoot [''d''] = [sampleRoot]"
    by (simp add: heap_eval)
  ultimately show ?thesis
    using sample_heapOK by (simp add: parentAt_def sampleRoot_def)
qed

theorem Create_visible_on_Close_witness:
  "childByPath (snd (MemNode_Create sampleHeap sampleRoot ''/d/x'')) sampleRoot ''/d/x'' = None
   \<and> childByPath (createWriteClose sampleHeap sampleRoot ''/d/x'' ''new'') sampleRoot ''/d/x'' = Some 4
   \<and> ReadAll (createWriteClose sampleHeap sampleRoot ''/d/x'' ''new'') \<lparr>rd_s = Some 1, rd_i = 0\<rparr> = ''new''
   \<and> (\<exists>r. MemNode_Open (createWriteClose (createWriteClose sampleHeap sampleRoot ''root2.txt'' ''Big Lots'')
               sampleRoot ''root2.txt'' ''Jamesway'') sampleRoot ''root2.txt'' = Inr r
         \<and> ReadAll (createWriteClose (createWriteClose sampleHeap sampleRoot ''root2.txt'' ''Big Lots'')
               sampleRoot ''root2.txt'' ''Jamesway'') r = ''Jamesway'')"
proof -
  note d = Create_visible_on_Close [OF sample_parentAt_d]
  note r = Create_visible_on_Close [OF sample_parentAt_root]
  have "childByPath (snd (MemNode_Create sampleHeap sampleRoot ''/d/x'')) sampleRoot ''/d/x'' = None"
    using d by (elim conjE)
  moreover have "childByPath (createWriteClose sampleHeap sampleRoot ''/d/x'' ''new'') sampleRoot ''/d/x''
      = Some (nextNode sampleHeap)"
    using d by (elim conjE) (drule spec [of _ "''new''"], elim conjE)
  moreover have "ReadAll (createWriteClose sampleHeap sampleRoot ''/d/x'' ''new'')
      \<lparr>rd_s = Some (nextArray sampleHeap), rd_i = 0\<rparr> = ''new''"
    using d by (elim conjE) (drule spec [of _ "''new''"], elim conjE)
  moreover have "\<exists>r. MemNode_Open (createWriteClose (createWriteClose sampleHeap sampleRoot ''root2.txt'' ''Big Lots'')
               sampleRoot ''root2.txt'' ''Jamesway'') sampleRoot ''root2.txt'' = Inr r
         \<and> ReadAll (createWriteClose (createWriteClose sampleHeap sampleRoot ''root2.txt'' ''Big Lots'')
               sampleRoot ''root2.txt'' ''Jamesway'') r = ''Jamesway''"
    using r by (elim conjE) (drule spec [of _ "''Big Lots''"], drule spec [of _ "''Jamesway''"])
  ultimately show ?thesis
    by (simp add: sample_alloc)
qed

end
